theory Spec2Isabelle
  imports Complex_Main "HOL-Library.Sublist" "HOL-Library.Log_Nat"
begin

section \<open>Strings and numbers of the source language\<close>

text \<open>
  A JavaScript string is modelled as a \<^typ>\<open>string\<close> whose characters are the code units
  \<open>0..255\<close> (the Latin-1 part of UTF-16); every keyword, pattern and literal of the
  program lies in that range. A value that may be \<open>undefined\<close> is an \<^typ>\<open>'a option\<close>.
\<close>

definition code_unit :: "char \<Rightarrow> nat" where
  "code_unit c = of_char c"

text \<open>\<open>String.prototype.toLowerCase\<close> on Latin-1 code units: \<open>A..Z\<close> and the accented
  capitals \<open>0xC0..0xDE\<close> (without the multiplication sign \<open>0xD7\<close>) move up by 32.\<close>

definition toLowerCase_char :: "char \<Rightarrow> char" where
  "toLowerCase_char c =
     (let n = code_unit c
      in if (65 \<le> n \<and> n \<le> 90) \<or> (192 \<le> n \<and> n \<le> 222 \<and> n \<noteq> 215)
         then char_of (n + 32) else c)"

definition toLowerCase :: "string \<Rightarrow> string" where
  "toLowerCase s = map toLowerCase_char s"

text \<open>\<open>String.prototype.includes\<close>: the keyword occurs as a contiguous part of the text.\<close>

fun str_includes :: "string \<Rightarrow> string \<Rightarrow> bool" where
  "str_includes [] kw = (kw = [])"
| "str_includes (c # cs) kw = (prefix kw (c # cs) \<or> str_includes cs kw)"

text \<open>
  A JavaScript number is \<open>NaN\<close>, one of the two infinities, or a finite double, kept here
  as the rational it denotes (the sign of zero is dropped: no comparison sees it).
\<close>

datatype number = NaN | PosInfinity | NegInfinity | Finite rat

text \<open>
  The number value of a real \<open>q\<close>: the double nearest to \<open>q\<close>, ties going to the even
  significand, and infinity beyond the largest double. \<open>exponent q\<close> is the binary exponent
  \<open>\<lfloor>log\<^sub>2 q\<rfloor>\<close> of a positive \<open>q\<close>; doubles with that exponent, or with the least
  exponent \<open>-1022\<close> for denormalised ones, lie \<open>ulp q\<close> apart.
\<close>

definition exponent :: "rat \<Rightarrow> int" where
  "exponent q = (if 1 \<le> q then bitlen \<lfloor>q\<rfloor> - 1 else - bitlen (\<lceil>1 / q\<rceil> - 1))"

definition roundTiesToEven :: "rat \<Rightarrow> int" where
  "roundTiesToEven m =
     (let f = \<lfloor>m\<rfloor>; r = m - of_int f
      in if r < 1 / 2 then f else if 1 / 2 < r then f + 1 else if even f then f else f + 1)"

definition ulp :: "rat \<Rightarrow> rat" where
  "ulp q = 2 powi (max (exponent q) (- 1022) - 52)"

definition nearest :: "rat \<Rightarrow> rat" where
  "nearest q = of_int (roundTiesToEven (q / ulp q)) * ulp q"

definition round_double :: "rat \<Rightarrow> number" where
  "round_double q =
     (if q = 0 then Finite 0
      else if 0 < q then (if 2 ^ 1024 \<le> nearest q then PosInfinity else Finite (nearest q))
      else (if 2 ^ 1024 \<le> nearest (- q) then NegInfinity else Finite (- nearest (- q))))"

fun negate :: "number \<Rightarrow> number" where
  "negate NaN = NaN"
| "negate PosInfinity = NegInfinity"
| "negate NegInfinity = PosInfinity"
| "negate (Finite v) = Finite (- v)"

text \<open>\<open>x * k\<close> for one of the positive constants \<open>k\<close> of the program: the product is
  rounded to a double again.\<close>

fun times :: "number \<Rightarrow> rat \<Rightarrow> number" where
  "times NaN k = NaN"
| "times PosInfinity k = PosInfinity"
| "times NegInfinity k = NegInfinity"
| "times (Finite v) k = round_double (v * k)"

text \<open>\<open>x >= t\<close> for a finite threshold \<open>t\<close>; every comparison with \<open>NaN\<close> is false.\<close>

fun ge :: "number \<Rightarrow> rat \<Rightarrow> bool" where
  "ge NaN t = False"
| "ge PosInfinity t = True"
| "ge NegInfinity t = False"
| "ge (Finite v) t = (t \<le> v)"

subsection \<open>parseFloat\<close>

definition isDigit :: "char \<Rightarrow> bool" where
  "isDigit c = (48 \<le> code_unit c \<and> code_unit c \<le> 57)"

text \<open>White space and line terminators that \<open>parseFloat\<close> skips at the start: TAB, LF, VT,
  FF, CR, SP and NBSP.\<close>

definition StrWhiteSpaceChar :: "char \<Rightarrow> bool" where
  "StrWhiteSpaceChar c = (code_unit c \<in> {9, 10, 11, 12, 13, 32, 160})"

text \<open>The mathematical value of a run of decimal digits (0 for the empty run).\<close>

definition DecimalDigits :: "string \<Rightarrow> nat" where
  "DecimalDigits ds = foldl (\<lambda>a c. 10 * a + (code_unit c - 48)) 0 ds"

definition scale10 :: "rat \<Rightarrow> int \<Rightarrow> rat" where
  "scale10 m e = (if 0 \<le> e then m * 10 ^ nat e else m / 10 ^ nat (- e))"

text \<open>The exponent read at the head of the rest of a literal: \<open>e\<close> or \<open>E\<close>, an optional
  sign and at least one digit. Without a digit there is no exponent part, which is the
  exponent 0.\<close>

definition ExponentPart :: "string \<Rightarrow> int" where
  "ExponentPart r =
     (case r of
        [] \<Rightarrow> 0
      | c # r1 \<Rightarrow>
          if c = CHR ''e'' \<or> c = CHR ''E'' then
            (case r1 of
               [] \<Rightarrow> 0
             | s # r2 \<Rightarrow>
                 if s = CHR ''+'' then int (DecimalDigits (takeWhile isDigit r2))
                 else if s = CHR ''-'' then - int (DecimalDigits (takeWhile isDigit r2))
                 else int (DecimalDigits (takeWhile isDigit r1)))
          else 0)"

text \<open>The longest prefix that is a \<open>StrUnsignedDecimalLiteral\<close>: \<open>Infinity\<close>, digits with
  an optional fraction and exponent, or a fraction that starts with the point. Its
  mathematical value is rounded to a double once.\<close>

definition StrUnsignedDecimalLiteral :: "string \<Rightarrow> number" where
  "StrUnsignedDecimalLiteral r =
     (if prefix ''Infinity'' r then PosInfinity
      else
        let ip = takeWhile isDigit r; r1 = dropWhile isDigit r
        in case r1 of
             [] \<Rightarrow> if ip = [] then NaN else round_double (of_nat (DecimalDigits ip))
           | c # r2 \<Rightarrow>
               if c = CHR ''.'' then
                 (let fp = takeWhile isDigit r2; r3 = dropWhile isDigit r2
                  in if ip = [] \<and> fp = [] then NaN
                     else round_double
                            (scale10 (of_nat (DecimalDigits ip)
                                      + of_nat (DecimalDigits fp) / 10 ^ length fp)
                                     (ExponentPart r3)))
               else if ip = [] then NaN
               else round_double (scale10 (of_nat (DecimalDigits ip)) (ExponentPart r1)))"

definition parseFloat :: "string \<Rightarrow> number" where
  "parseFloat s =
     (case dropWhile StrWhiteSpaceChar s of
        [] \<Rightarrow> NaN
      | c # r \<Rightarrow>
          if c = CHR ''+'' then StrUnsignedDecimalLiteral r
          else if c = CHR ''-'' then negate (StrUnsignedDecimalLiteral r)
          else StrUnsignedDecimalLiteral (c # r))"

section \<open>The classifier (scrapers/backstage.js)\<close>

datatype vfxNeeds = Extreme | High | Medium | Low

datatype tier = tier1 | tier2 | tier3 | tier4

datatype error = TypeError string | AdapterError string

definition extremeKeywords :: "string list" where
  "extremeKeywords =
     [''extensive vfx'', ''heavy vfx'', ''full cgi'', ''green screen'', ''500+ shots'',
      ''creature work'']"

definition highKeywords :: "string list" where
  "highKeywords =
     [''vfx supervisor'', ''vfx heavy'', ''visual effects'', ''cgi'', ''compositing'',
      ''200+ shots'']"

definition mediumKeywords :: "string list" where
  "mediumKeywords = [''vfx'', ''visual effects'', ''post production'', ''effects'']"

text \<open>\<open>classifyVFXNeeds(description, budget)\<close>. Calling \<open>toLowerCase\<close> on an absent
  description throws a \<open>TypeError\<close>.\<close>

definition classifyVFXNeeds :: "string option \<Rightarrow> string option \<Rightarrow> error + vfxNeeds" where
  "classifyVFXNeeds description budget =
     (case description of
        None \<Rightarrow> Inl (TypeError ''Cannot read properties of undefined (reading 'toLowerCase')'')
      | Some d \<Rightarrow>
          let text = toLowerCase d
          in if list_ex (\<lambda>kw. str_includes text kw) extremeKeywords then Inr Extreme
             else if list_ex (\<lambda>kw. str_includes text kw) highKeywords then Inr High
             else if list_ex (\<lambda>kw. str_includes text kw) mediumKeywords then Inr Medium
             else Inr Low)"

text \<open>\<open>determineTier(budget)\<close>. \<open>!budget\<close> holds for \<open>undefined\<close> and for the empty string.
  The replace with \<open>/[$,K]/g\<close> deletes every dollar sign, comma and capital K;
  \<open>amount\<close> is the constant of that name in the source, in thousands of dollars.\<close>

definition amount :: "string \<Rightarrow> number" where
  "amount b =
     times (parseFloat (filter (\<lambda>c. c \<notin> set ''$,K'') b))
           (if CHR ''M'' \<in> set b then 1000 else 1)"

definition determineTier :: "string option \<Rightarrow> tier" where
  "determineTier budget =
     (case budget of
        None \<Rightarrow> tier3
      | Some b \<Rightarrow>
          if b = [] \<or> b = ''TBD'' then tier3
          else if ge (amount b) 10000 then tier1
          else if ge (amount b) 1000 then tier2
          else if ge (amount b) 100 then tier3
          else tier4)"

section \<open>The scraper (scrapers/backstage.js)\<close>

text \<open>A raw listing, as the elements of \<open>mockData\<close>; a property that is not there reads as
  \<open>undefined\<close>.\<close>

record item =
  title :: "string option"
  description :: "string option"
  budget :: "string option"
  location :: "string option"
  stage :: "string option"
  company :: "string option"
  postedDate :: "string option"

record contact =
  name :: string
  role :: string
  email :: string

record project =
  project_id :: rat
  title :: "string option"
  tier :: tier
  budget :: "string option"
  vfxNeeds :: vfxNeeds
  vfxNeedsSource :: string
  stage :: "string option"
  source :: string
  company :: "string option"
  description :: "string option"
  timeline :: string
  location :: "string option"
  vfxBudget :: string
  shotCount :: string
  contacts :: "contact list"
  crossSourceData :: "(string \<times> string option) list"
  scrapedAt :: string
  postedDate :: "string option"

fun vfxNeeds_string :: "vfxNeeds \<Rightarrow> string" where
  "vfxNeeds_string Extreme = ''Extreme''"
| "vfxNeeds_string High = ''High''"
| "vfxNeeds_string Medium = ''Medium''"
| "vfxNeeds_string Low = ''Low''"

text \<open>The object literal built in one pass of the loop, from the listing, the two
  classifications, the fresh identifier \<open>Date.now() + Math.random()\<close> and the clock
  reading of \<open>scrapedAt\<close>.\<close>

definition make_project :: "rat \<Rightarrow> string \<Rightarrow> item \<Rightarrow> vfxNeeds \<Rightarrow> tier \<Rightarrow> project" where
  "make_project fresh_id now it v t =
     \<lparr> project_id = fresh_id,
       title = item.title it,
       tier = t,
       budget = item.budget it,
       vfxNeeds = v,
       vfxNeedsSource =
         ''Backstage posting: '' @ vfxNeeds_string v
           @ '' needs based on project description and scope'',
       stage = item.stage it,
       source = ''Backstage'',
       company = item.company it,
       description = item.description it,
       timeline = ''Contact for details'',
       location = item.location it,
       vfxBudget = ''TBD'',
       shotCount = ''TBD'',
       contacts =
         [\<lparr> name = ''Contact via Backstage'', role = ''Producer'',
             email = ''Apply through platform'' \<rparr>],
       crossSourceData = [(''backstage'', item.description it)],
       scrapedAt = now,
       postedDate = item.postedDate it \<rparr>"

text \<open>
  The loop \<open>for (const item of mockData)\<close>, for any list of listings. \<open>fresh i\<close> and
  \<open>clock i\<close> are the identifier and the clock reading drawn in pass \<open>i\<close>. An exception
  thrown in a pass leaves the loop; the \<open>catch\<close> of \<open>scrape\<close> logs it and throws it again.
\<close>

fun process_items ::
  "(nat \<Rightarrow> rat) \<Rightarrow> (nat \<Rightarrow> string) \<Rightarrow> nat \<Rightarrow> item list \<Rightarrow> project list \<Rightarrow> error + project list"
where
  "process_items fresh clock i [] projects = Inr projects"
| "process_items fresh clock i (it # rest) projects =
     (case classifyVFXNeeds (item.description it) (item.budget it) of
        Inl e \<Rightarrow> Inl e
      | Inr v \<Rightarrow>
          process_items fresh clock (Suc i) rest
            (projects @ [make_project (fresh i) (clock i) it v (determineTier (item.budget it))]))"

text \<open>The three listings of \<open>mockData\<close>; \<open>posted k\<close> is the clock reading taken for the
  \<open>postedDate\<close> of listing \<open>k\<close>.\<close>

definition mockData :: "(nat \<Rightarrow> string) \<Rightarrow> item list" where
  "mockData posted =
     [\<lparr> item.title = Some ''Sci-Fi Feature Film - VFX Heavy'',
        description = Some ''Looking for VFX house for extensive VFX work including creature design, environments, and 500+ shots'',
        budget = Some ''$15M'',
        location = Some ''Los Angeles, CA'',
        stage = Some ''Pre-Production'',
        company = Some ''Independent Studio'',
        postedDate = Some (posted 0) \<rparr>,
      \<lparr> item.title = Some ''Horror Short Film'',
        description = Some ''Need VFX for creature effects and environmental enhancements, approximately 50 shots'',
        budget = Some ''$250K'',
        location = Some ''New York, NY'',
        stage = Some ''Development'',
        company = Some ''Indie Productions'',
        postedDate = Some (posted 1) \<rparr>,
      \<lparr> item.title = Some ''Commercial - Tech Brand'',
        description = Some ''VFX needed for product visualization and motion graphics'',
        budget = Some ''$80K'',
        location = Some ''Remote'',
        stage = Some ''Production'',
        company = Some ''Ad Agency'',
        postedDate = Some (posted 2) \<rparr>]"

definition scrape :: "(nat \<Rightarrow> string) \<Rightarrow> (nat \<Rightarrow> rat) \<Rightarrow> (nat \<Rightarrow> string) \<Rightarrow> error + project list" where
  "scrape posted fresh clock = process_items fresh clock 0 (mockData posted) []"

section \<open>The server (server.js)\<close>

text \<open>
  An entry of \<open>sourcesCache\<close>. Each property may be absent (\<open>None\<close>): the spread of an
  \<open>undefined\<close> entry contributes nothing. \<open>lastScrape\<close> is \<open>null\<close> (\<open>Some None\<close>) or a
  timestamp. The same type serves for the \<open>updates\<close> argument, which names only the
  properties it sets.
\<close>

record source_status =
  lastScrape :: "string option option"
  projectCount :: "nat option"
  status :: "string option"

definition no_properties :: source_status where
  "no_properties = \<lparr> lastScrape = None, projectCount = None, status = None \<rparr>"

text \<open>\<open>{ ...a, ...updates }\<close>: a property of \<open>updates\<close> wins over the one of \<open>a\<close>.\<close>

definition spread :: "source_status \<Rightarrow> source_status \<Rightarrow> source_status" where
  "spread a updates =
     \<lparr> lastScrape = (case lastScrape updates of None \<Rightarrow> lastScrape a | Some v \<Rightarrow> Some v),
       projectCount = (case projectCount updates of None \<Rightarrow> projectCount a | Some v \<Rightarrow> Some v),
       status = (case status updates of None \<Rightarrow> status a | Some v \<Rightarrow> Some v) \<rparr>"

record server =
  projectsCache :: "project list"
  sourcesCache :: "string \<rightharpoonup> source_status"

definition initial_sourcesCache :: "string \<rightharpoonup> source_status" where
  "initial_sourcesCache =
     [''vitrina'' \<mapsto> \<lparr> lastScrape = Some None, projectCount = Some 0, status = Some ''idle'' \<rparr>,
      ''backstage'' \<mapsto> \<lparr> lastScrape = Some None, projectCount = Some 0, status = Some ''idle'' \<rparr>,
      ''mandy'' \<mapsto> \<lparr> lastScrape = Some None, projectCount = Some 0, status = Some ''idle'' \<rparr>,
      ''productionWeekly'' \<mapsto>
        \<lparr> lastScrape = Some None, projectCount = Some 0, status = Some ''idle'' \<rparr>]"

definition initial_server :: server where
  "initial_server = \<lparr> projectsCache = [], sourcesCache = initial_sourcesCache \<rparr>"

text \<open>\<open>updateSourceStatus(sourceName, updates)\<close>; a failed write of the file is caught and
  only logged, the cache is what counts.\<close>

definition updateSourceStatus :: "server \<Rightarrow> string \<Rightarrow> source_status \<Rightarrow> server" where
  "updateSourceStatus sv sourceName updates =
     sv\<lparr> sourcesCache :=
           (sourcesCache sv)
             (sourceName \<mapsto>
                spread (case sourcesCache sv sourceName of None \<Rightarrow> no_properties | Some a \<Rightarrow> a)
                       updates) \<rparr>"

text \<open>The merge loop of the scrape route: \<open>mergedProjects\<close> starts as a copy of
  \<open>existingProjects\<close>, and a new project is pushed when \<open>existingProjects\<close> has no entry
  with its title.\<close>

definition mergedProjects :: "project list \<Rightarrow> project list \<Rightarrow> project list" where
  "mergedProjects existingProjects newProjects =
     fold (\<lambda>newProject merged.
             if find (\<lambda>p. project.title p = project.title newProject) existingProjects = None
             then merged @ [newProject] else merged)
          newProjects existingProjects"

datatype response =
    Json (success: bool) (projectsAdded: nat) (totalProjects: nat) (response_source: string)
  | Status500 (error_message: string)

fun message :: "error \<Rightarrow> string" where
  "message (TypeError m) = m"
| "message (AdapterError m) = m"

text \<open>
  \<open>POST /api/scrape/:source\<close>. \<open>now\<close> is the clock reading at the start of the request and
  \<open>outcome\<close> what \<open>require\<close> of the scraper module and its \<open>scrape()\<close> produce: the new
  projects, or the error thrown.
\<close>

definition scrape_route :: "server \<Rightarrow> string \<Rightarrow> string \<Rightarrow> error + project list \<Rightarrow> server \<times> response" where
  "scrape_route sv sourceName now outcome =
     (let sv1 = updateSourceStatus sv sourceName
                  (no_properties\<lparr> status := Some ''scraping'', lastScrape := Some (Some now) \<rparr>)
      in case outcome of
           Inl e \<Rightarrow>
             (updateSourceStatus sv1 sourceName (no_properties\<lparr> status := Some ''error'' \<rparr>),
              Status500 (message e))
         | Inr newProjects \<Rightarrow>
             let existingProjects = projectsCache sv1;
                 merged = mergedProjects existingProjects newProjects;
                 sv2 = sv1\<lparr> projectsCache := merged \<rparr>;
                 sv3 = updateSourceStatus sv2 sourceName
                         (no_properties\<lparr> status := Some ''active'',
                                         projectCount := Some (length newProjects) \<rparr>)
             in (sv3, Json True (length newProjects) (length merged) sourceName))"

section \<open>Notions used to state the properties\<close>

text \<open>The order of the tiers by budget: \<open>tier1\<close> is the largest.\<close>

fun tier_level :: "tier \<Rightarrow> nat" where
  "tier_level tier4 = 0"
| "tier_level tier3 = 1"
| "tier_level tier2 = 2"
| "tier_level tier1 = 3"

text \<open>The amount of a budget string \<open>$<amount>K\<close> or \<open>$<amount>M\<close>: decimal digits, grouped
  by commas or not, with at least one digit; its value is the number the digits spell.\<close>

definition is_amount :: "string \<Rightarrow> bool" where
  "is_amount ds = (list_all (\<lambda>c. isDigit c \<or> c = CHR '','') ds \<and> list_ex isDigit ds)"

definition amount_value :: "string \<Rightarrow> nat" where
  "amount_value ds = DecimalDigits (filter isDigit ds)"

text \<open>The budget in thousands of dollars that amount and suffix denote.\<close>

definition thousands :: "string \<Rightarrow> char \<Rightarrow> nat" where
  "thousands ds sfx = (if sfx = CHR ''M'' then amount_value ds * 1000 else amount_value ds)"

text \<open>An amount that may have a fraction: digits, grouped by commas or not, then
  possibly a point and more digits, with a digit somewhere; its value is the decimal
  number it spells, and \<open>decimal_thousands\<close> the budget in thousands of dollars that it
  denotes with the suffix.\<close>

definition is_decimal_amount :: "string \<Rightarrow> bool" where
  "is_decimal_amount ds =
     (let s = filter (\<lambda>c. c \<noteq> CHR '','') ds; ip = takeWhile isDigit s
      in case dropWhile isDigit s of
           [] \<Rightarrow> ip \<noteq> []
         | c # fp \<Rightarrow> c = CHR ''.'' \<and> list_all isDigit fp \<and> (ip \<noteq> [] \<or> fp \<noteq> []))"

definition decimal_value :: "string \<Rightarrow> rat" where
  "decimal_value ds =
     (let s = filter (\<lambda>c. c \<noteq> CHR '','') ds; ip = takeWhile isDigit s
      in case dropWhile isDigit s of
           [] \<Rightarrow> of_nat (DecimalDigits ip)
         | c # fp \<Rightarrow> of_nat (DecimalDigits ip) + of_nat (DecimalDigits fp) / 10 ^ length fp)"

definition decimal_thousands :: "string \<Rightarrow> char \<Rightarrow> rat" where
  "decimal_thousands ds sfx = decimal_value ds * (if sfx = CHR ''M'' then 1000 else 1)"

definition no_digits :: "string \<Rightarrow> bool" where
  "no_digits s = list_all (\<lambda>c. \<not> isDigit c) s"

text \<open>What is left of the budget after the replace and the leading white space starts with
  \<open>Infinity\<close> or \<open>+Infinity\<close>.\<close>

definition reads_Infinity :: "string \<Rightarrow> bool" where
  "reads_Infinity b =
     (let t = dropWhile StrWhiteSpaceChar (filter (\<lambda>c. c \<notin> set ''$,K'') b)
      in prefix ''Infinity'' t \<or> prefix ''+Infinity'' t)"

text \<open>The new projects whose title no existing project has.\<close>

definition absent_titles :: "project list \<Rightarrow> project list \<Rightarrow> project list" where
  "absent_titles existingProjects newProjects =
     filter (\<lambda>n. project.title n \<notin> set (map project.title existingProjects)) newProjects"

subsection \<open>Concrete inputs\<close>

definition sample_fresh :: "nat \<Rightarrow> rat" where
  "sample_fresh i = 1762160400000 + of_nat i / 8"

definition sample_clock :: "nat \<Rightarrow> string" where
  "sample_clock i = ''2026-11-03T09:00:00.000Z''"

definition listing :: "string \<Rightarrow> string option \<Rightarrow> string \<Rightarrow> item" where
  "listing t d b =
     \<lparr> item.title = Some t, description = d, budget = Some b, location = None, stage = None,
       company = None, postedDate = None \<rparr>"

definition entry :: "nat \<Rightarrow> string \<Rightarrow> project" where
  "entry n t =
     make_project (of_nat n) ''2026-11-03T09:00:00.000Z''
       (listing t (Some ''motion graphics'') ''$80K'') Low tier4"

text \<open>A server whose catalog holds three projects, and a batch of two of which one repeats
  a title of the catalog.\<close>

definition stocked_server :: server where
  "stocked_server = initial_server\<lparr> projectsCache := [entry 1 ''A'', entry 2 ''B'', entry 3 ''C''] \<rparr>"

definition overlapping_batch :: "project list" where
  "overlapping_batch = [entry 4 ''A'', entry 5 ''D'']"

text \<open>A batch in which one title comes twice.\<close>

definition repeating_batch :: "project list" where
  "repeating_batch = [entry 1 ''Pilot'', entry 2 ''Pilot'']"

text \<open>A batch of listings of which the first has no description.\<close>

definition incomplete_listings :: "item list" where
  "incomplete_listings =
     [listing ''A'' None ''$15M'', listing ''B'' (Some ''motion graphics'') ''$80K'']"

text \<open>The server after one scrape of Backstage from the initial state.\<close>

definition scraped_once :: server where
  "scraped_once =
     fst (scrape_route initial_server ''backstage'' ''2026-11-03T09:00:00.000Z''
            (scrape sample_clock sample_fresh sample_clock))"

section \<open>Rounding to a double\<close>

text \<open>Rounding to the nearest integer is monotone and fixes the integers.\<close>

lemma rte_bounds: "\<lfloor>m\<rfloor> \<le> roundTiesToEven m \<and> roundTiesToEven m \<le> \<lfloor>m\<rfloor> + 1"
  by (simp add: roundTiesToEven_def Let_def)

lemma rte_of_int: "roundTiesToEven (of_int k) = k"
  by (simp add: roundTiesToEven_def Let_def)

lemma rte_mono:
  assumes "m1 \<le> m2"
  shows "roundTiesToEven m1 \<le> roundTiesToEven m2"
proof (cases "\<lfloor>m1\<rfloor> = \<lfloor>m2\<rfloor>")
  case True
  with assms show ?thesis
    by (auto simp: roundTiesToEven_def Let_def)
next
  case False
  with assms have "\<lfloor>m1\<rfloor> + 1 \<le> \<lfloor>m2\<rfloor>"
    using floor_mono [OF assms] by linarith
  with rte_bounds [of m1] rte_bounds [of m2] show ?thesis by linarith
qed


lemma bitlen_pos: "0 < x \<Longrightarrow> 1 \<le> bitlen x"
  using bitlen_bounds [of x] by (cases "bitlen x \<le> 0") auto

lemma exponent_bounds:
  assumes "0 < q"
  shows "2 powi exponent q \<le> q \<and> q < 2 powi (exponent q + 1)"
proof (cases "1 \<le> q")
  case True
  define f where "f = \<lfloor>q\<rfloor>"
  define b where "b = bitlen f"
  from True have f: "0 < f" by (simp add: f_def)
  from bitlen_bounds [OF f] have lo: "2 ^ nat (b - 1) \<le> f" and hi: "f < 2 ^ nat b"
    by (simp_all add: b_def)
  have b: "1 \<le> b" using bitlen_pos [OF f] by (simp add: b_def)
  have e: "exponent q = b - 1" using True by (simp add: exponent_def f_def b_def)
  have "rat_of_int (2 ^ nat (b - 1)) \<le> rat_of_int f" using lo by (simp only: of_int_le_iff)
  also have "\<dots> \<le> q" by (simp add: f_def)
  finally have 1: "2 powi (b - 1) \<le> q" using b by (simp add: power_int_nonneg_exp)
  have "q < rat_of_int (f + 1)" unfolding f_def using floor_correct [of q] by blast
  also have "\<dots> \<le> rat_of_int (2 ^ nat b)"
  proof -
    from hi have "f + 1 \<le> 2 ^ nat b" by simp
    then show ?thesis by (simp only: of_int_le_iff)
  qed
  finally have 2: "q < 2 powi b" using b by (simp add: power_int_nonneg_exp)
  from 1 2 show ?thesis by (simp add: e)
next
  case False
  define c where "c = \<lceil>1 / q\<rceil>"
  define b where "b = bitlen (c - 1)"
  from False assms have q1: "1 < 1 / q" by simp
  then have "1 < c" unfolding c_def by (simp add: less_ceiling_iff)
  then have d: "0 < c - 1" by simp
  from bitlen_bounds [OF d] have lo: "2 ^ nat (b - 1) \<le> c - 1" and hi: "c - 1 < 2 ^ nat b"
    by (simp_all add: b_def)
  have b: "1 \<le> b" using bitlen_pos [OF d] by (simp add: b_def)
  have e: "exponent q = - b" using False by (simp add: exponent_def c_def b_def)
  have "1 / q \<le> rat_of_int c" by (simp add: c_def)
  also have "\<dots> \<le> rat_of_int (2 ^ nat b)"
  proof -
    from hi have "c \<le> 2 ^ nat b" by simp
    then show ?thesis by (simp only: of_int_le_iff)
  qed
  finally have "1 / q \<le> 2 ^ nat b" by simp
  then have "1 / 2 ^ nat b \<le> q" using assms
    by (simp add: field_simps)
  then have 1: "2 powi (- b) \<le> q" using b
    by (simp add: power_int_def field_simps)
  have "rat_of_int (2 ^ nat (b - 1)) \<le> rat_of_int (c - 1)" using lo by (simp only: of_int_le_iff)
  also have "\<dots> < 1 / q" unfolding c_def by (simp add: ceiling_correct)
  finally have "2 ^ nat (b - 1) < 1 / q" by simp
  then have "q < 1 / 2 ^ nat (b - 1)" using assms
    by (simp add: field_simps)
  then have 2: "q < 2 powi (- b + 1)" using b
    by (cases "b = 1") (simp_all add: power_int_def field_simps)
  from 1 2 show ?thesis by (simp add: e)
qed

lemma exponent_mono:
  assumes "0 < q1" and "q1 \<le> q2"
  shows "exponent q1 \<le> exponent q2"
proof (rule ccontr)
  assume "\<not> exponent q1 \<le> exponent q2"
  then have "exponent q2 + 1 \<le> exponent q1" by simp
  then have "(2::rat) powi (exponent q2 + 1) \<le> 2 powi exponent q1"
    by (intro power_int_increasing) simp_all
  moreover have "2 powi exponent q1 \<le> q1" using exponent_bounds [OF assms(1)] by simp
  moreover have "q2 < 2 powi (exponent q2 + 1)" using exponent_bounds [of q2] assms by simp
  ultimately show False using assms(2) by linarith
qed

text \<open>The rounded value stays within the binade of its argument, so rounding is monotone
  on the positive rationals; integers below \<open>2\<^sup>5\<^sup>3\<close> are doubles.\<close>

lemma ulp_pos: "0 < ulp q"
  by (simp add: ulp_def)

lemma ulp_shift: "2 powi (max (exponent q) (- 1022) + 1) = 2 ^ 53 * ulp q"
proof -
  have "(2::rat) powi (max (exponent q) (- 1022) + 1) = 2 powi (53 + (max (exponent q) (- 1022) - 52))"
    by (simp add: algebra_simps)
  also have "\<dots> = 2 powi 53 * 2 powi (max (exponent q) (- 1022) - 52)"
    by (rule power_int_add) simp
  finally show ?thesis by (simp add: ulp_def)
qed

lemma ulp_shift': "2 powi (max (exponent q) (- 1022)) = 2 ^ 52 * ulp q"
proof -
  have "(2::rat) powi (max (exponent q) (- 1022)) = 2 powi (52 + (max (exponent q) (- 1022) - 52))"
    by (simp add: algebra_simps)
  also have "\<dots> = 2 powi 52 * 2 powi (max (exponent q) (- 1022) - 52)"
    by (rule power_int_add) simp
  finally show ?thesis by (simp add: ulp_def)
qed

lemma nearest_upper:
  assumes "0 < q"
  shows "nearest q \<le> 2 powi (max (exponent q) (- 1022) + 1)"
proof -
  have "q < 2 powi (exponent q + 1)" using exponent_bounds [OF assms] by simp
  also have "\<dots> \<le> 2 powi (max (exponent q) (- 1022) + 1)"
    by (intro power_int_increasing) simp_all
  finally have "q < 2 ^ 53 * ulp q" by (simp only: ulp_shift)
  then have "q / ulp q \<le> rat_of_int (2 ^ 53)"
    using ulp_pos [of q] by (simp add: field_simps)
  from rte_mono [OF this] have "roundTiesToEven (q / ulp q) \<le> 2 ^ 53"
    by (simp only: rte_of_int)
  then have "rat_of_int (roundTiesToEven (q / ulp q)) \<le> rat_of_int (2 ^ 53)"
    by (simp only: of_int_le_iff)
  then have "rat_of_int (roundTiesToEven (q / ulp q)) * ulp q \<le> 2 ^ 53 * ulp q"
    using ulp_pos [of q] by (simp add: mult_right_mono)
  then show ?thesis by (simp only: nearest_def ulp_shift)
qed

lemma nearest_lower:
  assumes "0 < q" and "- 1022 \<le> exponent q"
  shows "2 powi exponent q \<le> nearest q"
proof -
  from assms(2) have m: "max (exponent q) (- 1022) = exponent q" by simp
  have "2 powi exponent q \<le> q" using exponent_bounds [OF assms(1)] by simp
  then have "2 ^ 52 * ulp q \<le> q" using ulp_shift' [of q] by (simp only: m)
  then have "rat_of_int (2 ^ 52) \<le> q / ulp q"
    using ulp_pos [of q] by (simp add: field_simps)
  from rte_mono [OF this] have "2 ^ 52 \<le> roundTiesToEven (q / ulp q)"
    by (simp only: rte_of_int)
  then have "rat_of_int (2 ^ 52) \<le> rat_of_int (roundTiesToEven (q / ulp q))"
    by (simp only: of_int_le_iff)
  then have "2 ^ 52 * ulp q \<le> rat_of_int (roundTiesToEven (q / ulp q)) * ulp q"
    using ulp_pos [of q] by (simp add: mult_right_mono)
  then show ?thesis using ulp_shift' [of q] by (simp only: nearest_def m)
qed

lemma nearest_nonneg:
  assumes "0 < q"
  shows "0 \<le> nearest q"
proof -
  have "rat_of_int 0 \<le> q / ulp q" using assms ulp_pos [of q] by simp
  from rte_mono [OF this] have "0 \<le> roundTiesToEven (q / ulp q)"
    by (simp only: rte_of_int)
  then show ?thesis using ulp_pos [of q] by (simp add: nearest_def)
qed

lemma nearest_mono:
  assumes "0 < q1" and "q1 \<le> q2"
  shows "nearest q1 \<le> nearest q2"
proof -
  from assms have q2: "0 < q2" by simp
  have e: "exponent q1 \<le> exponent q2" using assms by (rule exponent_mono)
  show ?thesis
  proof (cases "max (exponent q1) (- 1022) = max (exponent q2) (- 1022)")
    case True
    then have u: "ulp q1 = ulp q2" by (simp add: ulp_def)
    have "q1 / ulp q2 \<le> q2 / ulp q2"
      using assms(2) ulp_pos [of q2] by (simp add: divide_right_mono)
    from rte_mono [OF this]
    have "rat_of_int (roundTiesToEven (q1 / ulp q2)) \<le> rat_of_int (roundTiesToEven (q2 / ulp q2))"
      by (simp only: of_int_le_iff)
    then show ?thesis
      using ulp_pos [of q2] by (simp add: nearest_def u mult_right_mono)
  next
    case False
    with e have lt: "max (exponent q1) (- 1022) + 1 \<le> exponent q2" and ge: "- 1022 \<le> exponent q2"
      by auto
    have "nearest q1 \<le> 2 powi (max (exponent q1) (- 1022) + 1)"
      using assms(1) by (rule nearest_upper)
    also have "\<dots> \<le> 2 powi exponent q2"
      using lt by (intro power_int_increasing) simp_all
    also have "\<dots> \<le> nearest q2" using q2 ge by (rule nearest_lower)
    finally show ?thesis .
  qed
qed

lemma exponent_int:
  assumes "0 < k" and "k < 2 ^ 53"
  shows "0 \<le> exponent (rat_of_int k) \<and> exponent (rat_of_int k) \<le> 52"
proof -
  have q: "0 < rat_of_int k" using assms(1) by simp
  note b = exponent_bounds [OF q]
  have "0 \<le> exponent (rat_of_int k)"
  proof (rule ccontr)
    assume "\<not> 0 \<le> exponent (rat_of_int k)"
    then have "exponent (rat_of_int k) + 1 \<le> 0" by simp
    then have "(2::rat) powi (exponent (rat_of_int k) + 1) \<le> 2 powi 0"
      by (intro power_int_increasing) simp_all
    with b have "rat_of_int k < 1" by simp
    with assms(1) show False by simp
  qed
  moreover have "exponent (rat_of_int k) \<le> 52"
  proof (rule ccontr)
    assume "\<not> exponent (rat_of_int k) \<le> 52"
    then have "53 \<le> exponent (rat_of_int k)" by simp
    then have "(2::rat) powi 53 \<le> 2 powi exponent (rat_of_int k)"
      by (intro power_int_increasing) simp_all
    with b have "2 ^ 53 \<le> rat_of_int k" by simp
    then have "rat_of_int (2 ^ 53) \<le> rat_of_int k" by simp
    then have "2 ^ 53 \<le> k" by (simp only: of_int_le_iff)
    with assms(2) show False by simp
  qed
  ultimately show ?thesis by simp
qed

lemma nearest_int:
  assumes "0 < k" and "k < 2 ^ 53"
  shows "nearest (rat_of_int k) = rat_of_int k"
proof -
  define e where "e = exponent (rat_of_int k)"
  from exponent_int [OF assms] have e: "0 \<le> e" "e \<le> 52" by (simp_all add: e_def)
  define n where "n = nat (52 - e)"
  have "ulp (rat_of_int k) = 2 powi (- int n)"
    using e by (simp add: ulp_def e_def [symmetric] n_def)
  then have u: "ulp (rat_of_int k) = 1 / 2 ^ n"
    by (simp add: power_int_minus field_simps)
  have "rat_of_int k / ulp (rat_of_int k) = rat_of_int (k * 2 ^ n)"
    by (simp add: u)
  then have "roundTiesToEven (rat_of_int k / ulp (rat_of_int k)) = k * 2 ^ n"
    by (simp only: rte_of_int)
  then show ?thesis by (simp add: nearest_def u)
qed

lemma round_double_ge:
  assumes "0 < t" and "t \<le> q" and "nearest t = t"
  shows "round_double q = PosInfinity \<or> (\<exists>v. round_double q = Finite v \<and> t \<le> v)"
proof -
  from assms have q: "0 < q" by simp
  have "nearest t \<le> nearest q" using assms(1,2) by (rule nearest_mono)
  then have "t \<le> nearest q" by (simp only: assms(3))
  then show ?thesis using q by (simp add: round_double_def)
qed

lemma round_double_le:
  assumes "0 \<le> q" and "q \<le> s" and "nearest s = s" and "s < 2 ^ 1024"
  shows "\<exists>v. round_double q = Finite v \<and> 0 \<le> v \<and> v \<le> s"
proof (cases "q = 0")
  case True
  then show ?thesis using assms by (simp add: round_double_def)
next
  case False
  with assms(1) have q: "0 < q" by simp
  have "nearest q \<le> nearest s" using q assms(2) by (rule nearest_mono)
  then have "nearest q \<le> s" by (simp only: assms(3))
  then show ?thesis
    using q assms(4) nearest_nonneg [OF q] by (simp add: round_double_def)
qed

lemma round_double_int:
  assumes "0 < k" and "k < 2 ^ 53"
  shows "round_double (rat_of_int k) = Finite (rat_of_int k)"
proof -
  from assms(2) have "rat_of_int k < rat_of_int (2 ^ 53)" by (simp only: of_int_less_iff)
  then have "\<not> 2 ^ 1024 \<le> rat_of_int k" by simp
  then show ?thesis using assms(1) by (simp add: round_double_def nearest_int [OF assms])
qed

text \<open>
  The comparison of a rounded and scaled natural number with a threshold \<open>t\<close> is decided
  by the least number \<open>c\<close> whose exact product reaches \<open>t\<close>.
\<close>

lemma ge_times_round:
  fixes n k t c :: nat
  assumes "0 < k" and "0 < t" and "t < 2 ^ 53" and "0 < c" and "c < 2 ^ 53"
    and "t \<le> c * k" and "(c - 1) * k < t"
  shows "ge (times (round_double (of_nat n)) (of_nat k)) (of_nat t) \<longleftrightarrow> c \<le> n"
proof (cases "c \<le> n")
  case True
  have nc: "nearest (rat_of_nat c) = rat_of_nat c"
    using nearest_int [of "int c"] assms(4,5) by simp
  have nt: "nearest (rat_of_nat t) = rat_of_nat t"
    using nearest_int [of "int t"] assms(2,3) by simp
  have c0: "0 < rat_of_nat c" using assms(4) by simp
  have cn: "rat_of_nat c \<le> rat_of_nat n" using True by simp
  have t0: "0 < rat_of_nat t" using assms(2) by simp
  from round_double_ge [OF c0 cn nc]
  have "ge (times (round_double (of_nat n)) (of_nat k)) (of_nat t)"
  proof
    assume "round_double (rat_of_nat n) = PosInfinity"
    then show ?thesis by simp
  next
    assume "\<exists>v. round_double (rat_of_nat n) = Finite v \<and> rat_of_nat c \<le> v"
    then obtain v where v: "round_double (rat_of_nat n) = Finite v" and cv: "rat_of_nat c \<le> v"
      by blast
    have "rat_of_nat t \<le> rat_of_nat (c * k)" using assms(6) by (simp only: of_nat_le_iff)
    also have "\<dots> = rat_of_nat c * rat_of_nat k" by simp
    also have "\<dots> \<le> v * rat_of_nat k" using cv by (simp add: mult_right_mono)
    finally have "rat_of_nat t \<le> v * rat_of_nat k" .
    from round_double_ge [OF t0 this nt] show ?thesis by (auto simp: v)
  qed
  with True show ?thesis by simp
next
  case False
  define s where "s = c - 1"
  from False have ns: "n \<le> s" by (simp add: s_def)
  from assms(7) have sk: "s * k < t" by (simp add: s_def)
  have "\<not> ge (times (round_double (of_nat n)) (of_nat k)) (of_nat t)"
  proof (cases "s = 0")
    case True
    with ns have "n = 0" by simp
    then show ?thesis using assms(2) by (simp add: round_double_def)
  next
    case False
    then have s0: "0 < int s" by simp
    have s53: "int s < 2 ^ 53" using assms(5) by (simp add: s_def)
    have nrs: "nearest (rat_of_nat s) = rat_of_nat s"
      using nearest_int [OF s0 s53] by simp
    have big: "rat_of_nat s < 2 ^ 1024"
    proof -
      from s53 have "rat_of_int (int s) < rat_of_int (2 ^ 53)" by (simp only: of_int_less_iff)
      then show ?thesis by simp
    qed
    have n0: "0 \<le> rat_of_nat n" by simp
    have nsr: "rat_of_nat n \<le> rat_of_nat s" using ns by simp
    from round_double_le [OF n0 nsr nrs big]
    obtain v where v: "round_double (rat_of_nat n) = Finite v" and v0: "0 \<le> v"
      and vs: "v \<le> rat_of_nat s" by blast
    have sk0: "0 < int (s * k)" using False assms(1) by simp
    from sk assms(3) have "s * k < 2 ^ 53" by (rule less_trans)
    then have "int (s * k) < int (2 ^ 53)" by (simp only: of_nat_less_iff)
    then have sk53: "int (s * k) < 2 ^ 53" by simp
    have nrsk: "nearest (rat_of_nat (s * k)) = rat_of_nat (s * k)"
      using nearest_int [OF sk0 sk53] by simp
    have bigsk: "rat_of_nat (s * k) < 2 ^ 1024"
    proof -
      from sk53 have "rat_of_int (int (s * k)) < rat_of_int (2 ^ 53)"
        by (simp only: of_int_less_iff)
      then show ?thesis by simp
    qed
    have vk0: "0 \<le> v * rat_of_nat k" using v0 by simp
    have "v * rat_of_nat k \<le> rat_of_nat s * rat_of_nat k" using vs by (simp add: mult_right_mono)
    then have vk: "v * rat_of_nat k \<le> rat_of_nat (s * k)" by simp
    from round_double_le [OF vk0 vk nrsk bigsk]
    obtain w where w: "round_double (v * rat_of_nat k) = Finite w"
      and ws: "w \<le> rat_of_nat (s * k)" by blast
    have "rat_of_nat (s * k) < rat_of_nat t" using sk by (simp only: of_nat_less_iff)
    with ws have "w < rat_of_nat t" by simp
    then show ?thesis by (simp add: v w)
  qed
  with False show ?thesis by simp
qed

text \<open>The exponent and the rounded integer are fixed by bounds; two values of the
  rounding that the tiers below depend on.\<close>

lemma exponent_eqI:
  assumes "2 powi e \<le> q" and "q < 2 powi (e + 1)"
  shows "exponent q = e"
proof -
  have "(0::rat) < 2 powi e" by simp
  from this assms(1) have q: "0 < q" by (rule less_le_trans)
  note b = exponent_bounds [OF q]
  have "exponent q \<le> e"
  proof (rule ccontr)
    assume "\<not> exponent q \<le> e"
    then have "e + 1 \<le> exponent q" by simp
    then have "(2::rat) powi (e + 1) \<le> 2 powi exponent q"
      by (intro power_int_increasing) simp_all
    with b assms(2) show False by simp
  qed
  moreover have "e \<le> exponent q"
  proof (rule ccontr)
    assume "\<not> e \<le> exponent q"
    then have "exponent q + 1 \<le> e" by simp
    then have "(2::rat) powi (exponent q + 1) \<le> 2 powi e"
      by (intro power_int_increasing) simp_all
    with b assms(1) show False by simp
  qed
  ultimately show ?thesis by simp
qed

lemma rte_eqI:
  assumes "rat_of_int n - 1 / 2 < m" and "m < rat_of_int n + 1 / 2"
  shows "roundTiesToEven m = n"
proof (cases "rat_of_int n \<le> m")
  case True
  with assms(2) have f: "\<lfloor>m\<rfloor> = n" by (intro floor_unique) simp_all
  show ?thesis using assms(2) by (simp add: roundTiesToEven_def Let_def f)
next
  case False
  with assms(1) have f: "\<lfloor>m\<rfloor> = n - 1" by (intro floor_unique) simp_all
  show ?thesis using assms(1) False by (simp add: roundTiesToEven_def Let_def f)
qed

lemma nearest_tenth: "nearest (1 / 10) = 3602879701896397 / 36028797018963968"
proof -
  have e: "exponent (1 / 10) = - 4"
    by (rule exponent_eqI) (simp_all add: power_int_minus)
  have u: "ulp (1 / 10) = 1 / 2 ^ 56"
    by (simp add: ulp_def e power_int_minus field_simps)
  have "roundTiesToEven (1 / 10 / ulp (1 / 10)) = 7205759403792794"
    by (rule rte_eqI) (simp_all add: u)
  then show ?thesis by (simp add: nearest_def u)
qed

lemma nearest_below_100:
  "nearest (99 + 99999999999999999 / 10 ^ 17) = 100"
proof -
  define q :: rat where "q = 99 + 99999999999999999 / 10 ^ 17"
  have e: "exponent q = 6"
    by (rule exponent_eqI) (simp_all add: q_def)
  have u: "ulp q = 1 / 2 ^ 46"
    by (simp add: ulp_def e power_int_minus field_simps)
  have "roundTiesToEven (q / (1 / 2 ^ 46)) = 7036874417766400"
    by (rule rte_eqI) (simp_all add: q_def)
  then have "nearest q = 100" by (simp add: nearest_def u)
  then show ?thesis by (simp only: q_def)
qed

text \<open>Rounding is monotone on the non-negative rationals, and so is the comparison of a
  rounded and scaled amount with a threshold.\<close>

lemma round_double_mono:
  assumes "0 \<le> q1" and "q1 \<le> q2"
  shows "round_double q2 = PosInfinity
         \<or> (\<exists>v1 v2. round_double q1 = Finite v1 \<and> round_double q2 = Finite v2
                     \<and> 0 \<le> v1 \<and> v1 \<le> v2)"
proof (cases "q1 = 0")
  case True
  show ?thesis
  proof (cases "q2 = 0")
    case True
    with \<open>q1 = 0\<close> show ?thesis by (simp add: round_double_def)
  next
    case False
    with assms True have q2: "0 < q2" by simp
    from nearest_nonneg [OF q2] q2 True show ?thesis by (simp add: round_double_def)
  qed
next
  case False
  with assms have q1: "0 < q1" and q2: "0 < q2" by simp_all
  have m: "nearest q1 \<le> nearest q2" using q1 assms(2) by (rule nearest_mono)
  from m nearest_nonneg [OF q1] q1 q2 show ?thesis by (simp add: round_double_def)
qed

lemma ge_times_mono:
  assumes "0 \<le> q1" and "q1 \<le> q2" and "0 < k"
    and "ge (times (round_double q1) k) t"
  shows "ge (times (round_double q2) k) t"
proof -
  from round_double_mono [OF assms(1,2)] show ?thesis
  proof
    assume "round_double q2 = PosInfinity"
    then show ?thesis by simp
  next
    assume "\<exists>v1 v2. round_double q1 = Finite v1 \<and> round_double q2 = Finite v2
                     \<and> 0 \<le> v1 \<and> v1 \<le> v2"
    then obtain v1 v2 where v1: "round_double q1 = Finite v1" and v2: "round_double q2 = Finite v2"
      and p: "0 \<le> v1" and le: "v1 \<le> v2" by blast
    have a: "0 \<le> v1 * k" using p assms(3) by simp
    have b: "v1 * k \<le> v2 * k" using le assms(3) by (simp add: mult_right_mono)
    from round_double_mono [OF a b] show ?thesis
    proof
      assume "round_double (v2 * k) = PosInfinity"
      then show ?thesis by (simp add: v2)
    next
      assume "\<exists>w1 w2. round_double (v1 * k) = Finite w1 \<and> round_double (v2 * k) = Finite w2
                     \<and> 0 \<le> w1 \<and> w1 \<le> w2"
      then obtain w1 w2 where w1: "round_double (v1 * k) = Finite w1"
        and w2: "round_double (v2 * k) = Finite w2" and w: "w1 \<le> w2" by blast
      from assms(4) have "t \<le> w1" by (simp add: v1 w1)
      with w show ?thesis by (simp add: v2 w2)
    qed
  qed
qed

lemma ge_times_up:
  assumes "0 < c" and "c \<le> q" and "c \<le> nearest c" and "0 < t" and "nearest t = t"
    and "t \<le> c * k" and "0 < k"
  shows "ge (times (round_double q) k) t"
proof -
  from assms(1,2) have q: "0 < q" by simp
  have "nearest c \<le> nearest q" using assms(1,2) by (rule nearest_mono)
  with assms(3) have cq: "c \<le> nearest q" by simp
  show ?thesis
  proof (cases "2 ^ 1024 \<le> nearest q")
    case True
    with q show ?thesis by (simp add: round_double_def)
  next
    case False
    with q have r: "round_double q = Finite (nearest q)" by (simp add: round_double_def)
    have "c * k \<le> nearest q * k" using cq assms(7) by (simp add: mult_right_mono)
    with assms(6) have "t \<le> nearest q * k" by simp
    from round_double_ge [OF assms(4) this assms(5)] show ?thesis by (auto simp: r)
  qed
qed

section \<open>Properties of the classifier\<close>

subsection \<open>Budgets written as an amount with a suffix\<close>

lemma isDigit_not_stripped: "isDigit c \<Longrightarrow> c \<notin> set ''$,K''"
  by (auto simp: isDigit_def code_unit_def)

lemma isDigit_not_space: "isDigit c \<Longrightarrow> \<not> StrWhiteSpaceChar c"
  by (auto simp: isDigit_def StrWhiteSpaceChar_def)

lemma isDigit_not_sign:
  "isDigit c \<Longrightarrow> c \<noteq> CHR ''+'' \<and> c \<noteq> CHR ''-'' \<and> c \<noteq> CHR ''I'' \<and> c \<noteq> CHR ''M''"
  by (auto simp: isDigit_def code_unit_def)

lemma not_isDigit_M: "\<not> isDigit CHR ''M''"
  by (simp add: isDigit_def code_unit_def)

lemma strip_amount:
  assumes "list_all (\<lambda>c. isDigit c \<or> c = CHR '','') ds"
  shows "filter (\<lambda>c. c \<notin> set ''$,K'') ds = filter isDigit ds"
  using assms
proof (induction ds)
  case Nil
  then show ?case by simp
next
  case (Cons c ds)
  then show ?case
    using isDigit_not_stripped [of c] by (auto simp: isDigit_def code_unit_def)
qed

lemma filter_isDigit_nonempty: "list_ex isDigit ds \<Longrightarrow> filter isDigit ds \<noteq> []"
  by (induction ds) auto

text \<open>A run of digits, alone or before the \<open>M\<close> that the replace leaves, parses to the
  number it spells.\<close>

lemma parseFloat_digits:
  assumes "d \<noteq> []" and "list_all isDigit d" and "rest = [] \<or> rest = ''M''"
  shows "parseFloat (d @ rest) = round_double (of_nat (DecimalDigits d))"
proof -
  from assms(1) obtain c d' where d: "d = c # d'" by (cases d) auto
  with assms(2) have c: "isDigit c" by simp
  have all: "\<forall>x\<in>set d. isDigit x" using assms(2) by (simp add: list_all_iff)
  have tw: "takeWhile isDigit (d @ rest) = d"
    using all assms(3) not_isDigit_M by (auto simp: takeWhile_append2)
  have dw: "dropWhile isDigit (d @ rest) = rest"
    using all assms(3) not_isDigit_M by (auto simp: dropWhile_append2)
  have np: "\<not> prefix ''Infinity'' (d @ rest)"
    using isDigit_not_sign [OF c] by (auto simp: d)
  have lit: "StrUnsignedDecimalLiteral (d @ rest) = round_double (of_nat (DecimalDigits d))"
    unfolding StrUnsignedDecimalLiteral_def tw dw Let_def
    using np assms(1,3) by (auto simp: ExponentPart_def scale10_def)
  have "dropWhile StrWhiteSpaceChar (d @ rest) = c # d' @ rest"
    using isDigit_not_space [OF c] by (simp add: d)
  then have "parseFloat (d @ rest) = StrUnsignedDecimalLiteral (c # d' @ rest)"
    using isDigit_not_sign [OF c] by (simp add: parseFloat_def)
  with lit show ?thesis by (simp add: d)
qed

lemma amount_of_budget:
  assumes "is_amount ds" and "sfx = CHR ''K'' \<or> sfx = CHR ''M''"
  shows "amount (''$'' @ ds @ [sfx])
           = times (round_double (of_nat (amount_value ds))) (if sfx = CHR ''M'' then 1000 else 1)"
proof -
  from assms(1) have la: "list_all (\<lambda>c. isDigit c \<or> c = CHR '','') ds"
    and le: "list_ex isDigit ds" by (simp_all add: is_amount_def)
  have ne: "filter isDigit ds \<noteq> []" using le by (rule filter_isDigit_nonempty)
  have ad: "list_all isDigit (filter isDigit ds)" by (simp add: list_all_iff)
  have noM: "CHR ''M'' \<notin> set ds"
    using la not_isDigit_M by (auto simp: list_all_iff)
  from assms(2) show ?thesis
  proof
    assume k: "sfx = CHR ''K''"
    have "filter (\<lambda>c. c \<notin> set ''$,K'') (''$'' @ ds @ [sfx]) = filter isDigit ds @ []"
      using strip_amount [OF la] k by simp
    then show ?thesis
      using parseFloat_digits [OF ne ad, of "[]"] noM k
      by (simp add: amount_def amount_value_def)
  next
    assume m: "sfx = CHR ''M''"
    have "filter (\<lambda>c. c \<notin> set ''$,K'') (''$'' @ ds @ [sfx]) = filter isDigit ds @ ''M''"
      using strip_amount [OF la] m by simp
    then show ?thesis
      using parseFloat_digits [OF ne ad, of "''M''"] m
      by (simp add: amount_def amount_value_def)
  qed
qed

text \<open>The three comparisons of \<open>determineTier\<close>, for an amount in thousands and for one
  in millions.\<close>

lemma ge_thousands:
  "ge (times (round_double (rat_of_nat n)) 1) 10000 = (10000 \<le> n)"
  "ge (times (round_double (rat_of_nat n)) 1) 1000 = (1000 \<le> n)"
  "ge (times (round_double (rat_of_nat n)) 1) 100 = (100 \<le> n)"
  using ge_times_round [of 1 10000 10000 n] ge_times_round [of 1 1000 1000 n]
    ge_times_round [of 1 100 100 n]
  by simp_all

lemma ge_millions:
  "ge (times (round_double (rat_of_nat n)) 1000) 10000 = (10 \<le> n)"
  "ge (times (round_double (rat_of_nat n)) 1000) 1000 = (1 \<le> n)"
  "ge (times (round_double (rat_of_nat n)) 1000) 100 = (1 \<le> n)"
  using ge_times_round [of 1000 10000 10 n] ge_times_round [of 1000 1000 1 n]
    ge_times_round [of 1000 100 1 n]
  by simp_all

lemma tier_of_budget:
  assumes "is_amount ds" and "sfx = CHR ''K'' \<or> sfx = CHR ''M''"
  shows "determineTier (Some (''$'' @ ds @ [sfx])) =
           (if 10000 \<le> thousands ds sfx then tier1
            else if 1000 \<le> thousands ds sfx then tier2
            else if 100 \<le> thousands ds sfx then tier3
            else tier4)"
proof -
  have am: "amount (CHR ''$'' # ds @ [sfx])
              = times (round_double (of_nat (amount_value ds))) (if sfx = CHR ''M'' then 1000 else 1)"
    using amount_of_budget [OF assms] by simp
  from assms(2) show ?thesis
  proof
    assume k: "sfx = CHR ''K''"
    have "amount (CHR ''$'' # ds @ ''K'') = times (round_double (of_nat (amount_value ds))) 1"
      using am by (simp add: k)
    then show ?thesis
      by (simp add: determineTier_def ge_thousands thousands_def k)
  next
    assume m: "sfx = CHR ''M''"
    have "amount (CHR ''$'' # ds @ ''M'') = times (round_double (of_nat (amount_value ds))) 1000"
      using am by (simp add: m)
    then show ?thesis
      by (simp add: determineTier_def ge_millions thousands_def m)
  qed
qed

lemma not_isDigit_point: "\<not> isDigit CHR ''.''"
  by (simp add: isDigit_def code_unit_def)

lemma point_plain:
  "\<not> StrWhiteSpaceChar CHR ''.'' \<and> CHR ''.'' \<notin> set ''$,K'' \<and> CHR ''.'' \<noteq> CHR ''M''"
  by (simp add: StrWhiteSpaceChar_def code_unit_def)

lemma ExponentPart_rest: "rest = [] \<or> rest = ''M'' \<Longrightarrow> ExponentPart rest = 0"
  by (auto simp: ExponentPart_def)

lemma takeWhile_digits: "list_all isDigit xs \<Longrightarrow> rest = [] \<or> rest = ''M''
    \<Longrightarrow> takeWhile isDigit (xs @ rest) = xs \<and> dropWhile isDigit (xs @ rest) = rest"
  using not_isDigit_M by (auto simp: list_all_iff takeWhile_append2 dropWhile_append2)

text \<open>A fraction, with or without digits before the point, parses to the number it spells,
  rounded.\<close>

lemma parseFloat_fraction:
  assumes "list_all isDigit ip" and "list_all isDigit fp" and "ip \<noteq> [] \<or> fp \<noteq> []"
    and "rest = [] \<or> rest = ''M''"
  shows "parseFloat (ip @ CHR ''.'' # fp @ rest)
           = round_double (of_nat (DecimalDigits ip) + of_nat (DecimalDigits fp) / 10 ^ length fp)"
proof -
  have all: "\<forall>x\<in>set ip. isDigit x" using assms(1) by (simp add: list_all_iff)
  have tw: "takeWhile isDigit (ip @ CHR ''.'' # fp @ rest) = ip"
    using all not_isDigit_point by (simp add: takeWhile_append2)
  have dw: "dropWhile isDigit (ip @ CHR ''.'' # fp @ rest) = CHR ''.'' # fp @ rest"
    using all not_isDigit_point by (simp add: dropWhile_append2)
  note f = takeWhile_digits [OF assms(2,4)]
  obtain x xs where x: "ip @ CHR ''.'' # fp @ rest = x # xs" and xd: "isDigit x \<or> x = CHR ''.''"
    using assms(1) by (cases ip) auto
  have plain: "\<not> StrWhiteSpaceChar x \<and> x \<noteq> CHR ''+'' \<and> x \<noteq> CHR ''-'' \<and> x \<noteq> CHR ''I''"
    using xd isDigit_not_space [of x] isDigit_not_sign [of x] point_plain by auto
  have np: "\<not> prefix ''Infinity'' (ip @ CHR ''.'' # fp @ rest)"
    using plain by (auto simp: x)
  have lit: "StrUnsignedDecimalLiteral (ip @ CHR ''.'' # fp @ rest)
           = round_double (of_nat (DecimalDigits ip) + of_nat (DecimalDigits fp) / 10 ^ length fp)"
    unfolding StrUnsignedDecimalLiteral_def tw dw Let_def
    using np assms(3) f ExponentPart_rest [OF assms(4)] by (auto simp: scale10_def)
  have "parseFloat (x # xs) = StrUnsignedDecimalLiteral (x # xs)"
    using plain by (simp add: parseFloat_def)
  with lit show ?thesis by (simp add: x)
qed

lemma decimal_chars:
  assumes "is_decimal_amount ds" and "c \<in> set ds"
  shows "isDigit c \<or> c = CHR '','' \<or> c = CHR ''.''"
proof (cases "c = CHR '',''")
  case True
  then show ?thesis by simp
next
  case False
  define s where "s = filter (\<lambda>c. c \<noteq> CHR '','') ds"
  from False assms(2) have "c \<in> set s" by (simp add: s_def)
  then have "c \<in> set (takeWhile isDigit s @ dropWhile isDigit s)" by simp
  then have "c \<in> set (takeWhile isDigit s) \<or> c \<in> set (dropWhile isDigit s)"
    by (simp only: set_append Un_iff)
  then show ?thesis
  proof
    assume "c \<in> set (takeWhile isDigit s)"
    then show ?thesis by (auto dest: set_takeWhileD)
  next
    assume d: "c \<in> set (dropWhile isDigit s)"
    have "case dropWhile isDigit s of
           [] \<Rightarrow> takeWhile isDigit s \<noteq> []
         | c # fp \<Rightarrow> c = CHR ''.'' \<and> list_all isDigit fp \<and> (takeWhile isDigit s \<noteq> [] \<or> fp \<noteq> [])"
      using assms(1) unfolding is_decimal_amount_def Let_def s_def .
    with d show ?thesis by (auto simp: list_all_iff split: list.splits)
  qed
qed

lemma decimal_strip:
  assumes "is_decimal_amount ds"
  shows "filter (\<lambda>c. c \<notin> set ''$,K'') ds = filter (\<lambda>c. c \<noteq> CHR '','') ds"
proof (rule filter_cong [OF refl])
  fix c assume "c \<in> set ds"
  from decimal_chars [OF assms this] isDigit_not_stripped [of c] point_plain
  show "(c \<notin> set ''$,K'') = (c \<noteq> CHR '','')" by auto
qed

lemma decimal_no_M:
  assumes "is_decimal_amount ds"
  shows "CHR ''M'' \<notin> set ds"
proof
  assume "CHR ''M'' \<in> set ds"
  from decimal_chars [OF assms this] not_isDigit_M show False by simp
qed

lemma parseFloat_decimal:
  assumes "is_decimal_amount ds" and "rest = [] \<or> rest = ''M''"
  shows "parseFloat (filter (\<lambda>c. c \<noteq> CHR '','') ds @ rest) = round_double (decimal_value ds)"
proof -
  define s where "s = filter (\<lambda>c. c \<noteq> CHR '','') ds"
  have str: "case dropWhile isDigit s of
           [] \<Rightarrow> takeWhile isDigit s \<noteq> []
         | c # fp \<Rightarrow> c = CHR ''.'' \<and> list_all isDigit fp \<and> (takeWhile isDigit s \<noteq> [] \<or> fp \<noteq> [])"
    using assms(1) unfolding is_decimal_amount_def Let_def s_def .
  have dv: "decimal_value ds =
      (case dropWhile isDigit s of
           [] \<Rightarrow> of_nat (DecimalDigits (takeWhile isDigit s))
         | c # fp \<Rightarrow> of_nat (DecimalDigits (takeWhile isDigit s))
                       + of_nat (DecimalDigits fp) / 10 ^ length fp)"
    unfolding decimal_value_def Let_def s_def by (rule refl)
  have ip: "list_all isDigit (takeWhile isDigit s)"
    by (auto simp: list_all_iff dest: set_takeWhileD)
  have split: "takeWhile isDigit s @ dropWhile isDigit s = s" by simp
  have "parseFloat (s @ rest) = round_double (decimal_value ds)"
  proof (cases "dropWhile isDigit s")
    case Nil
    with str have ne: "takeWhile isDigit s \<noteq> []" by simp
    from Nil split have s: "takeWhile isDigit s = s" by simp
    have "parseFloat (takeWhile isDigit s @ rest)
            = round_double (of_nat (DecimalDigits (takeWhile isDigit s)))"
      using ne ip assms(2) by (rule parseFloat_digits)
    then show ?thesis by (simp add: dv Nil s)
  next
    case (Cons c fp)
    with str have c: "c = CHR ''.''" and fp: "list_all isDigit fp"
      and ne: "takeWhile isDigit s \<noteq> [] \<or> fp \<noteq> []"
      by simp_all
    from Cons split c have s: "takeWhile isDigit s @ CHR ''.'' # fp = s" by simp
    have "parseFloat (takeWhile isDigit s @ CHR ''.'' # fp @ rest)
            = round_double (of_nat (DecimalDigits (takeWhile isDigit s))
                            + of_nat (DecimalDigits fp) / 10 ^ length fp)"
      using ip fp ne assms(2) by (rule parseFloat_fraction)
    moreover have "takeWhile isDigit s @ CHR ''.'' # fp @ rest = s @ rest"
      using s by (metis append_Cons append_assoc)
    ultimately show ?thesis by (simp add: dv Cons)
  qed
  then show ?thesis by (simp only: s_def)
qed

lemma amount_of_decimal:
  assumes "is_decimal_amount ds" and "sfx = CHR ''K'' \<or> sfx = CHR ''M''"
  shows "amount (CHR ''$'' # ds @ [sfx])
           = times (round_double (decimal_value ds)) (if sfx = CHR ''M'' then 1000 else 1)"
proof -
  note st = decimal_strip [OF assms(1)]
  note noM = decimal_no_M [OF assms(1)]
  from assms(2) show ?thesis
  proof
    assume k: "sfx = CHR ''K''"
    have "filter (\<lambda>c. c \<notin> set ''$,K'') (CHR ''$'' # ds @ [sfx])
            = filter (\<lambda>c. c \<noteq> CHR '','') ds @ []"
      using st k by simp
    then show ?thesis
      using parseFloat_decimal [OF assms(1), of "[]"] noM k
      by (simp add: amount_def)
  next
    assume m: "sfx = CHR ''M''"
    have "filter (\<lambda>c. c \<notin> set ''$,K'') (CHR ''$'' # ds @ [sfx])
            = filter (\<lambda>c. c \<noteq> CHR '','') ds @ ''M''"
      using st m by simp
    then show ?thesis
      using parseFloat_decimal [OF assms(1), of "''M''"] m
      by (simp add: amount_def)
  qed
qed

lemma decimal_value_nonneg: "0 \<le> decimal_value ds"
  by (simp add: decimal_value_def Let_def split: list.splits)

lemma nearest_thresholds:
  "nearest 10000 = 10000" "nearest 1000 = 1000" "nearest 100 = 100"
  using nearest_int [of 10000] nearest_int [of 1000] nearest_int [of 100] by simp_all

lemma nearest_small:
  "(10::rat) \<le> nearest 10" "(1::rat) \<le> nearest 1" "(1 / 10 :: rat) \<le> nearest (1 / 10)"
  using nearest_int [of 10] nearest_int [of 1] by (simp_all add: nearest_tenth)

lemma ge_up_thousands:
  "10000 \<le> v \<Longrightarrow> ge (times (round_double v) 1) 10000"
  "1000 \<le> v \<Longrightarrow> ge (times (round_double v) 1) 1000"
  "100 \<le> v \<Longrightarrow> ge (times (round_double v) 1) 100"
  using ge_times_up [of 10000 v 10000 1] ge_times_up [of 1000 v 1000 1]
    ge_times_up [of 100 v 100 1]
  by (simp_all add: nearest_thresholds)

lemma ge_up_millions:
  "10000 \<le> v * 1000 \<Longrightarrow> ge (times (round_double v) 1000) 10000"
  "1000 \<le> v * 1000 \<Longrightarrow> ge (times (round_double v) 1000) 1000"
  "100 \<le> v * 1000 \<Longrightarrow> ge (times (round_double v) 1000) 100"
proof -
  assume "10000 \<le> v * 1000"
  then have "10 \<le> v" by simp
  then show "ge (times (round_double v) 1000) 10000"
    using ge_times_up [of 10 v 10000 1000] by (simp add: nearest_thresholds nearest_small)
next
  assume "1000 \<le> v * 1000"
  then have "1 \<le> v" by simp
  then show "ge (times (round_double v) 1000) 1000"
    using ge_times_up [of 1 v 1000 1000] by (simp add: nearest_thresholds nearest_small)
next
  assume "100 \<le> v * 1000"
  then have v: "1 / 10 \<le> v" by simp
  have p: "(0::rat) < 1 / 10" by simp
  have t: "(0::rat) < 100" by simp
  have ck: "(100::rat) \<le> 1 / 10 * 1000" by simp
  have k: "(0::rat) < 1000" by simp
  show "ge (times (round_double v) 1000) 100"
    by (rule ge_times_up [OF p v nearest_small(3) t nearest_thresholds(3) ck k])
qed

lemma tier_of_decimal:
  assumes "is_decimal_amount ds" and "sfx = CHR ''K'' \<or> sfx = CHR ''M''"
  shows "determineTier (Some (''$'' @ ds @ [sfx])) =
           (if ge (times (round_double (decimal_value ds)) (if sfx = CHR ''M'' then 1000 else 1)) 10000
            then tier1
            else if ge (times (round_double (decimal_value ds))
                          (if sfx = CHR ''M'' then 1000 else 1)) 1000
            then tier2
            else if ge (times (round_double (decimal_value ds))
                          (if sfx = CHR ''M'' then 1000 else 1)) 100
            then tier3
            else tier4)"
  by (simp add: determineTier_def amount_of_decimal [OF assms])

lemma tier_level_thresholds:
  assumes "ge a2 10000 \<or> \<not> ge a1 10000" and "ge a2 1000 \<or> \<not> ge a1 1000"
    and "ge a2 100 \<or> \<not> ge a1 100"
  shows "tier_level (if ge a1 10000 then tier1 else if ge a1 1000 then tier2
                     else if ge a1 100 then tier3 else tier4)
         \<le> tier_level (if ge a2 10000 then tier1 else if ge a2 1000 then tier2
                     else if ge a2 100 then tier3 else tier4)"
  using assms by auto

lemma tier_level_decimal_mono:
  assumes "is_decimal_amount ds1" and "is_decimal_amount ds2"
    and "sfx = CHR ''K'' \<or> sfx = CHR ''M''"
    and "decimal_value ds1 \<le> decimal_value ds2"
  shows "tier_level (determineTier (Some (''$'' @ ds1 @ [sfx])))
           \<le> tier_level (determineTier (Some (''$'' @ ds2 @ [sfx])))"
proof -
  have k: "(0::rat) < (if sfx = CHR ''M'' then 1000 else 1)" by simp
  note m = ge_times_mono [OF decimal_value_nonneg assms(4) k]
  show ?thesis
    unfolding tier_of_decimal [OF assms(1,3)] tier_of_decimal [OF assms(2,3)]
    by (rule tier_level_thresholds) (use m in blast)+
qed

lemma tier_decimal_up:
  assumes "is_decimal_amount ds" and "sfx = CHR ''K'' \<or> sfx = CHR ''M''"
  shows "(10000 \<le> decimal_thousands ds sfx \<longrightarrow> determineTier (Some (''$'' @ ds @ [sfx])) = tier1)
       \<and> (1000 \<le> decimal_thousands ds sfx
            \<longrightarrow> 2 \<le> tier_level (determineTier (Some (''$'' @ ds @ [sfx]))))
       \<and> (100 \<le> decimal_thousands ds sfx
            \<longrightarrow> 1 \<le> tier_level (determineTier (Some (''$'' @ ds @ [sfx]))))"
  using assms(2)
proof
  assume k: "sfx = CHR ''K''"
  show ?thesis
    unfolding tier_of_decimal [OF assms]
    using ge_up_thousands [of "decimal_value ds"] by (simp add: k decimal_thousands_def)
next
  assume m: "sfx = CHR ''M''"
  show ?thesis
    unfolding tier_of_decimal [OF assms]
    using ge_up_millions [of "decimal_value ds"] by (simp add: m decimal_thousands_def)
qed

text \<open>
  Claim C5, as the source has it. For budget strings \<open>$<amount>K\<close> and \<open>$<amount>M\<close> whose
  amount is a decimal number (digits, with or without grouping commas and a fraction),
  \<open>determineTier\<close> is monotone in the amount: of two such strings with the same suffix, the
  one with the larger amount never gets the lower tier, and an amount at or above a
  boundary (10000, 1000 and 100 thousand dollars) never gets a tier below the one of that
  boundary. The tier is decided by the three thresholds on the double nearest to the
  amount (times 1000, rounded again, for \<open>M\<close>). For an amount without fraction that is
  the same as the thresholds on the amount itself, so the tier changes exactly at the
  boundaries; an amount with a fraction just below a boundary, whose nearest double is the
  boundary, gets the higher tier.
\<close>

theorem determineTier_monotone:
  assumes "is_decimal_amount ds1" and "is_decimal_amount ds2"
    and "sfx = CHR ''K'' \<or> sfx = CHR ''M''"
    and "decimal_value ds1 \<le> decimal_value ds2"
  shows "tier_level (determineTier (Some (''$'' @ ds1 @ [sfx])))
           \<le> tier_level (determineTier (Some (''$'' @ ds2 @ [sfx])))
       \<and> (10000 \<le> decimal_thousands ds1 sfx
            \<longrightarrow> determineTier (Some (''$'' @ ds1 @ [sfx])) = tier1)
       \<and> (1000 \<le> decimal_thousands ds1 sfx
            \<longrightarrow> 2 \<le> tier_level (determineTier (Some (''$'' @ ds1 @ [sfx]))))
       \<and> (100 \<le> decimal_thousands ds1 sfx
            \<longrightarrow> 1 \<le> tier_level (determineTier (Some (''$'' @ ds1 @ [sfx]))))
       \<and> determineTier (Some (''$'' @ ds1 @ [sfx])) =
           (if ge (times (round_double (decimal_value ds1)) (if sfx = CHR ''M'' then 1000 else 1)) 10000
            then tier1
            else if ge (times (round_double (decimal_value ds1))
                          (if sfx = CHR ''M'' then 1000 else 1)) 1000
            then tier2
            else if ge (times (round_double (decimal_value ds1))
                          (if sfx = CHR ''M'' then 1000 else 1)) 100
            then tier3
            else tier4)
       \<and> (is_amount ds1 \<longrightarrow>
            determineTier (Some (''$'' @ ds1 @ [sfx])) =
              (if 10000 \<le> thousands ds1 sfx then tier1
               else if 1000 \<le> thousands ds1 sfx then tier2
               else if 100 \<le> thousands ds1 sfx then tier3
               else tier4))"
  using tier_level_decimal_mono [OF assms] tier_decimal_up [OF assms(1,3)]
    tier_of_decimal [OF assms(1,3)] tier_of_budget [of ds1 sfx] assms(3)
  by (intro conjI impI) blast+

lemma decimal_samples:
  "is_decimal_amount ''0.5''" "is_decimal_amount ''1,250.75''"
  "decimal_value ''0.5'' = 1 / 2" "decimal_value ''1,250.75'' = 5003 / 4"
  by (simp_all add: is_decimal_amount_def decimal_value_def Let_def isDigit_def code_unit_def
        DecimalDigits_def)

theorem determineTier_monotone_witness:
  "is_decimal_amount ''0.5'' \<and> is_decimal_amount ''1,250.75''
   \<and> decimal_value ''0.5'' \<le> decimal_value ''1,250.75''
   \<and> tier_level (determineTier (Some ''$0.5M'')) \<le> tier_level (determineTier (Some ''$1,250.75M''))
   \<and> 1 \<le> tier_level (determineTier (Some ''$0.5M''))"
proof -
  have le: "decimal_value ''0.5'' \<le> decimal_value ''1,250.75''"
    by (simp add: decimal_samples)
  have th: "100 \<le> decimal_thousands ''0.5'' CHR ''M''"
    by (simp add: decimal_thousands_def decimal_samples)
  from determineTier_monotone [OF decimal_samples(1,2) _ le, of "CHR ''M''"] th
  have "tier_level (determineTier (Some (''$'' @ ''0.5'' @ ''M'')))
           \<le> tier_level (determineTier (Some (''$'' @ ''1,250.75'' @ ''M'')))
        \<and> 1 \<le> tier_level (determineTier (Some (''$'' @ ''0.5'' @ ''M'')))"
    by blast
  with decimal_samples(1,2) le show ?thesis by simp
qed

lemma decimal_below_100:
  "is_decimal_amount ''99.99999999999999999''"
  "decimal_value ''99.99999999999999999'' = 99 + 99999999999999999 / 10 ^ 17"
  by (simp_all add: is_decimal_amount_def decimal_value_def Let_def isDigit_def code_unit_def
        DecimalDigits_def)

text \<open>The claim as it was stated, with the tier below \<open>tier3\<close> for every amount below 100
  thousand dollars, fails at \<open>$99.99999999999999999K\<close>: the amount parses to the double
  100.\<close>

theorem determineTier_boundary_counterexample:
  "is_decimal_amount ''99.99999999999999999''
   \<and> decimal_thousands ''99.99999999999999999'' CHR ''K'' < 100
   \<and> determineTier (Some ''$99.99999999999999999K'') = tier3"
proof -
  have v: "decimal_thousands ''99.99999999999999999'' CHR ''K'' < 100"
    by (simp add: decimal_thousands_def decimal_below_100)
  have "\<not> (2::rat) ^ 1024 \<le> 100" by simp
  then have r: "round_double (decimal_value ''99.99999999999999999'') = Finite 100"
    unfolding decimal_below_100(2) round_double_def nearest_below_100 by simp
  have r100: "round_double 100 = Finite 100" using round_double_int [of 100] by simp
  note t = tier_of_decimal [OF decimal_below_100(1), of "CHR ''K''"]
  have "determineTier (Some (''$'' @ ''99.99999999999999999'' @ [CHR ''K''])) = tier3"
    by (subst t) (simp_all add: r r100)
  with decimal_below_100(1) v show ?thesis by simp
qed

subsection \<open>Unknown budgets\<close>

lemma amount_80K: "amount ''$80K'' = Finite 80"
proof -
  have a: "is_amount ''80''"
    by (simp add: is_amount_def isDigit_def code_unit_def)
  have v: "amount_value ''80'' = 80"
    by (simp add: amount_value_def DecimalDigits_def isDigit_def code_unit_def)
  have r: "round_double 80 = Finite 80"
    using round_double_int [of 80] by simp
  from amount_of_budget [OF a, of "CHR ''K''"] show ?thesis
    by (simp add: v r)
qed

text \<open>
  Claim C8. \<open>determineTier("TBD")\<close> and \<open>determineTier(undefined)\<close> are both \<open>tier3\<close>, while
  a budget string from which a number below 100 (thousand dollars) is read gets \<open>tier4\<close>:
  the default for an unknown budget is \<open>tier3\<close>, not \<open>tier4\<close>.
\<close>

theorem determineTier_unknown_budget:
  assumes "b \<noteq> []" and "b \<noteq> ''TBD''" and "amount b = Finite v" and "v < 100"
  shows "determineTier (Some ''TBD'') = tier3 \<and> determineTier None = tier3
         \<and> determineTier (Some b) = tier4"
  using assms by (simp add: determineTier_def)

theorem determineTier_unknown_budget_witness:
  "''$80K'' \<noteq> [] \<and> ''$80K'' \<noteq> ''TBD'' \<and> amount ''$80K'' = Finite 80 \<and> (80::rat) < 100
   \<and> determineTier (Some ''TBD'') = tier3 \<and> determineTier None = tier3
   \<and> determineTier (Some ''$80K'') = tier4"
  using determineTier_unknown_budget [of "''$80K''" 80] amount_80K by simp

subsection \<open>Budgets without a digit\<close>

lemma no_digits_takeWhile: "no_digits r \<Longrightarrow> takeWhile isDigit r = []"
  by (cases r) (auto simp: no_digits_def)

lemma no_digits_dropWhile: "no_digits r \<Longrightarrow> dropWhile isDigit r = r"
  by (cases r) (auto simp: no_digits_def)

lemma no_digits_tl: "no_digits (c # r) \<Longrightarrow> no_digits r"
  by (simp add: no_digits_def)

lemma no_digits_filter: "no_digits b \<Longrightarrow> no_digits (filter P b)"
  by (induction b) (auto simp: no_digits_def)

lemma no_digits_dropWhile_any: "no_digits b \<Longrightarrow> no_digits (dropWhile P b)"
  by (induction b) (auto simp: no_digits_def)

text \<open>Without a digit the only literal that can be read is \<open>Infinity\<close>.\<close>

lemma no_digits_literal:
  assumes "no_digits r"
  shows "StrUnsignedDecimalLiteral r = (if prefix ''Infinity'' r then PosInfinity else NaN)"
proof -
  have tw: "takeWhile isDigit r = []" using assms by (rule no_digits_takeWhile)
  have dw: "dropWhile isDigit r = r" using assms by (rule no_digits_dropWhile)
  show ?thesis
  proof (cases r)
    case Nil
    then show ?thesis by (simp add: StrUnsignedDecimalLiteral_def)
  next
    case (Cons c r2)
    with assms have "no_digits r2" by (simp add: no_digits_def)
    then have tw2: "takeWhile isDigit r2 = []" by (rule no_digits_takeWhile)
    have "StrUnsignedDecimalLiteral r =
            (if prefix ''Infinity'' r then PosInfinity
             else case r of
                    [] \<Rightarrow> NaN
                  | c # r2 \<Rightarrow>
                      if c = CHR ''.'' then
                        (if takeWhile isDigit r2 = [] then NaN
                         else round_double (scale10
                                (of_nat (DecimalDigits [])
                                 + of_nat (DecimalDigits (takeWhile isDigit r2))
                                   / 10 ^ length (takeWhile isDigit r2))
                                (ExponentPart (dropWhile isDigit r2))))
                      else NaN)"
      unfolding StrUnsignedDecimalLiteral_def tw dw Let_def
      by (simp split: list.splits)
    then show ?thesis using tw2 Cons by simp
  qed
qed

lemma no_digits_parseFloat:
  assumes "no_digits s"
  shows "parseFloat s =
     (let t = dropWhile StrWhiteSpaceChar s
      in if prefix ''Infinity'' t \<or> prefix ''+Infinity'' t then PosInfinity
         else if prefix ''-Infinity'' t then NegInfinity else NaN)"
proof (cases "dropWhile StrWhiteSpaceChar s")
  case Nil
  then show ?thesis by (simp add: parseFloat_def Nil)
next
  case (Cons c r)
  from assms have "no_digits (dropWhile StrWhiteSpaceChar s)" by (rule no_digits_dropWhile_any)
  with Cons have cr: "no_digits (c # r)" by simp
  then have r: "no_digits r" by (rule no_digits_tl)
  show ?thesis
    using no_digits_literal [OF r] no_digits_literal [OF cr]
    by (auto simp add: parseFloat_def Cons Let_def)
qed

text \<open>
  Claim C10, as the source has it. A budget string that is not empty, is not \<open>"TBD"\<close> and
  holds no digit gets \<open>tier4\<close>, unless what the replace and the leading white space leave
  starts with \<open>Infinity\<close> or \<open>+Infinity\<close>: then \<open>parseFloat\<close> yields infinity, not NaN, the
  first comparison holds and the tier is \<open>tier1\<close>.
\<close>

theorem determineTier_no_digits:
  assumes "b \<noteq> []" and "b \<noteq> ''TBD''" and "no_digits b"
  shows "determineTier (Some b) = (if reads_Infinity b then tier1 else tier4)"
proof -
  have "no_digits (filter (\<lambda>c. c \<notin> set ''$,K'') b)" using assms(3) by (rule no_digits_filter)
  from no_digits_parseFloat [OF this] assms(1,2) show ?thesis
    by (auto simp add: determineTier_def amount_def reads_Infinity_def Let_def)
qed

theorem determineTier_no_digits_witness:
  "''negotiable'' \<noteq> [] \<and> ''negotiable'' \<noteq> ''TBD'' \<and> no_digits ''negotiable''
   \<and> \<not> reads_Infinity ''negotiable'' \<and> determineTier (Some ''negotiable'') = tier4"
proof -
  have n: "no_digits ''negotiable''"
    by (simp add: no_digits_def isDigit_def code_unit_def)
  have r: "\<not> reads_Infinity ''negotiable''"
    by (simp add: reads_Infinity_def StrWhiteSpaceChar_def code_unit_def)
  from determineTier_no_digits [of "''negotiable''"] n r show ?thesis by simp
qed

text \<open>The claim as it was stated, for every digit-free budget, fails at the budget
  \<open>"Infinity"\<close>.\<close>

theorem determineTier_Infinity_counterexample:
  "''Infinity'' \<noteq> [] \<and> ''Infinity'' \<noteq> ''TBD'' \<and> no_digits ''Infinity''
   \<and> determineTier (Some ''Infinity'') = tier1 \<and> determineTier (Some ''Infinity'') \<noteq> tier4"
  by (simp add: no_digits_def isDigit_def code_unit_def determineTier_def amount_def
        parseFloat_def StrWhiteSpaceChar_def StrUnsignedDecimalLiteral_def)

subsection \<open>The budget argument of the VFX classification\<close>

text \<open>
  Claim C9. \<open>classifyVFXNeeds\<close> ignores its budget argument: for every description and any
  two budgets the result is the same, so the level depends on the description only.
\<close>

theorem classifyVFXNeeds_ignores_budget:
  "classifyVFXNeeds d b1 = classifyVFXNeeds d b2"
  by (simp add: classifyVFXNeeds_def)

theorem classifyVFXNeeds_ignores_budget_witness:
  "classifyVFXNeeds (Some ''Full CGI creature work'') (Some ''$80K'')
     = classifyVFXNeeds (Some ''Full CGI creature work'') None"
  using classifyVFXNeeds_ignores_budget [of "Some ''Full CGI creature work''" "Some ''$80K''" None]
  by simp

section \<open>Properties of the scraper loop\<close>

lemma classifyVFXNeeds_Some: "\<exists>v. classifyVFXNeeds (Some d) b = Inr v"
  by (simp add: classifyVFXNeeds_def Let_def)

lemma title_make_project: "project.title (make_project f c it v t) = item.title it"
  by (simp add: make_project_def)

text \<open>When every listing has a description, the loop returns one project for each, in
  order and with the listing's title.\<close>

lemma process_items_ok:
  assumes "list_all (\<lambda>it. item.description it \<noteq> None) items"
  shows "\<exists>ps. process_items fresh clock i items acc = Inr (acc @ ps)
              \<and> map project.title ps = map item.title items"
  using assms
proof (induction items arbitrary: i acc)
  case Nil
  then show ?case by simp
next
  case (Cons it items)
  then obtain d where d: "item.description it = Some d" by auto
  obtain v where v: "classifyVFXNeeds (Some d) (item.budget it) = Inr v"
    using classifyVFXNeeds_Some by blast
  let ?p = "make_project (fresh i) (clock i) it v (determineTier (item.budget it))"
  from Cons.prems have "list_all (\<lambda>it. item.description it \<noteq> None) items" by simp
  from Cons.IH [OF this, of "Suc i" "acc @ [?p]"]
  obtain ps where "process_items fresh clock (Suc i) items (acc @ [?p]) = Inr ((acc @ [?p]) @ ps)"
     and "map project.title ps = map item.title items" by blast
  then show ?case
    by (simp add: d v title_make_project)
qed

lemma process_items_throws:
  assumes "list_ex (\<lambda>it. item.description it = None) items"
  shows "process_items fresh clock i items acc
           = Inl (TypeError ''Cannot read properties of undefined (reading 'toLowerCase')'')"
  using assms
proof (induction items arbitrary: i acc)
  case Nil
  then show ?case by simp
next
  case (Cons it items)
  show ?case
  proof (cases "item.description it")
    case None
    then show ?thesis by (simp add: classifyVFXNeeds_def)
  next
    case (Some d)
    obtain v where v: "classifyVFXNeeds (Some d) (item.budget it) = Inr v"
      using classifyVFXNeeds_Some by blast
    from Cons.prems Some have "list_ex (\<lambda>it. item.description it = None) items" by simp
    from Cons.IH [OF this] show ?thesis by (simp add: Some v)
  qed
qed

lemma scrape_titles:
  "\<exists>ps. scrape posted fresh clock = Inr ps
     \<and> map project.title ps = map item.title (mockData posted)"
proof -
  have "list_all (\<lambda>it. item.description it \<noteq> None) (mockData posted)"
    by (simp add: mockData_def)
  from process_items_ok [OF this, of fresh clock 0 "[]"] show ?thesis
    by (simp add: scrape_def)
qed

lemma length_mockData: "length (mockData posted) = 3"
  by (simp add: mockData_def)

section \<open>Properties of the scrape route\<close>

lemma projectsCache_updateSourceStatus:
  "projectsCache (updateSourceStatus sv n u) = projectsCache sv"
  by (simp add: updateSourceStatus_def)

lemma scrape_route_Inl:
  "scrape_route sv sourceName now (Inl e)
     = (sv\<lparr> sourcesCache := (sourcesCache sv)
              (sourceName \<mapsto>
                 \<lparr> lastScrape = Some (Some now),
                   projectCount = (case sourcesCache sv sourceName of
                                     None \<Rightarrow> None | Some a \<Rightarrow> projectCount a),
                   status = Some ''error'' \<rparr>) \<rparr>,
        Status500 (message e))"
  by (simp add: scrape_route_def updateSourceStatus_def spread_def no_properties_def Let_def
           split: option.splits)

lemma scrape_route_Inr:
  "scrape_route sv n now (Inr new) =
     (updateSourceStatus
        (updateSourceStatus sv n
           (no_properties\<lparr> status := Some ''scraping'', lastScrape := Some (Some now) \<rparr>)
           \<lparr> projectsCache := mergedProjects (projectsCache sv) new \<rparr>)
        n (no_properties\<lparr> status := Some ''active'', projectCount := Some (length new) \<rparr>),
      Json True (length new) (length (mergedProjects (projectsCache sv) new)) n)"
  by (simp add: scrape_route_def Let_def projectsCache_updateSourceStatus)

lemma scrape_route_Inr_status:
  "sourcesCache (fst (scrape_route sv sourceName now (Inr newProjects))) sourceName
     = Some \<lparr> lastScrape = Some (Some now), projectCount = Some (length newProjects),
              status = Some ''active'' \<rparr>"
  by (simp add: scrape_route_def updateSourceStatus_def spread_def no_properties_def Let_def)

lemma scrape_route_catalog:
  "projectsCache (fst (scrape_route sv n now (Inr new))) = mergedProjects (projectsCache sv) new"
  by (simp add: scrape_route_Inr projectsCache_updateSourceStatus)

subsection \<open>The merge loop\<close>

lemma find_None_title:
  "(find (\<lambda>p. project.title p = t) ps = None) = (t \<notin> set (map project.title ps))"
  by (auto simp: find_None_iff)

lemma fold_push:
  "fold (\<lambda>newProject merged.
           if find (\<lambda>p. project.title p = project.title newProject) ex = None
           then merged @ [newProject] else merged) new acc
     = acc @ absent_titles ex new"
  by (induction new arbitrary: acc) (auto simp: absent_titles_def find_None_title)

text \<open>The merged catalog is the existing one followed by the new projects whose title the
  existing one does not have.\<close>

lemma mergedProjects_append:
  "mergedProjects ex new = ex @ absent_titles ex new"
  by (simp add: mergedProjects_def fold_push)

lemma absent_after_merge:
  "absent_titles (mergedProjects ex new) new = []"
  by (auto simp: mergedProjects_append absent_titles_def filter_empty_conv)

text \<open>A second merge of the same batch leaves the catalog as the first one made it.\<close>

lemma mergedProjects_idem:
  "mergedProjects (mergedProjects ex new) new = mergedProjects ex new"
  by (simp add: mergedProjects_append [of "mergedProjects ex new"] absent_after_merge)

text \<open>Titles stay distinct when they are distinct in the catalog and within the batch.\<close>

lemma mergedProjects_distinct:
  assumes "distinct (map project.title ex)" and "distinct (map project.title new)"
  shows "distinct (map project.title (mergedProjects ex new))"
proof -
  have "distinct (map project.title (absent_titles ex new))"
    using assms(2) by (simp add: absent_titles_def distinct_map_filter)
  moreover have
    "set (map project.title ex) \<inter> set (map project.title (absent_titles ex new)) = {}"
    by (auto simp: absent_titles_def) (metis imageI)
  ultimately show ?thesis
    using assms(1) by (simp add: mergedProjects_append)
qed

lemma entry_title: "project.title (entry n t) = Some t"
  by (simp add: entry_def listing_def title_make_project)

lemma scraped_once_catalog:
  "\<exists>ps. scrape sample_clock sample_fresh sample_clock = Inr ps \<and> length ps = 3
        \<and> projectsCache scraped_once = ps"
proof -
  from scrape_titles [of sample_clock sample_fresh sample_clock]
  obtain ps where p: "scrape sample_clock sample_fresh sample_clock = Inr ps
     \<and> map project.title ps = map item.title (mockData sample_clock)" ..
  then have ps: "scrape sample_clock sample_fresh sample_clock = Inr ps"
    by (rule conjunct1)
  from p have "length (map project.title ps) = length (map item.title (mockData sample_clock))"
    by (simp only:)
  then have l: "length ps = 3" by (simp add: length_mockData)
  have "projectsCache scraped_once = mergedProjects [] ps"
    by (simp add: scraped_once_def ps scrape_route_catalog initial_server_def)
  also have "\<dots> = ps"
    by (simp add: mergedProjects_append absent_titles_def)
  finally show ?thesis using ps l by simp
qed

text \<open>
  Claim C1. The count that the route reports as \<open>projectsAdded\<close> should be the number of
  projects appended to the catalog, that is of new projects whose title the catalog did
  not have. The route reports the size of the batch instead: a second scrape of Backstage
  appends nothing, the catalog keeps its three projects, and the answer still says that
  three projects were added.
\<close>

theorem projectsAdded_second_scrape:
  "snd (scrape_route scraped_once ''backstage'' ''2026-11-03T10:00:00.000Z''
          (scrape sample_clock sample_fresh sample_clock))
     = Json True 3 3 ''backstage''
   \<and> projectsCache (fst (scrape_route scraped_once ''backstage'' ''2026-11-03T10:00:00.000Z''
                           (scrape sample_clock sample_fresh sample_clock)))
       = projectsCache scraped_once
   \<and> length (projectsCache scraped_once) = 3"
proof -
  from scraped_once_catalog
  obtain ps where p: "scrape sample_clock sample_fresh sample_clock = Inr ps \<and> length ps = 3
        \<and> projectsCache scraped_once = ps" ..
  then have ps: "scrape sample_clock sample_fresh sample_clock = Inr ps"
    and l: "length ps = 3" and c: "projectsCache scraped_once = ps"
    by simp_all
  have m: "mergedProjects ps ps = ps"
    by (auto simp: mergedProjects_append absent_titles_def filter_empty_conv)
  show ?thesis
    by (simp add: ps scrape_route_Inr projectsCache_updateSourceStatus c m l)
qed

text \<open>
  Claim C2. No two entries of a catalog that the merge produces should share a title, also
  when the batch holds two postings with the same title. The loop looks for the title in
  the catalog as it was before the request, not in the list it is building: from the
  empty catalog and a batch with the title \<open>Pilot\<close> twice it makes a catalog with both.
\<close>

theorem merge_keeps_repeated_title:
  "distinct (map project.title (projectsCache initial_server))
   \<and> map project.title
       (projectsCache (fst (scrape_route initial_server ''mandy'' ''2026-11-03T10:00:00.000Z''
                              (Inr repeating_batch))))
       = [Some ''Pilot'', Some ''Pilot'']
   \<and> \<not> distinct (map project.title
       (projectsCache (fst (scrape_route initial_server ''mandy'' ''2026-11-03T10:00:00.000Z''
                              (Inr repeating_batch)))))"
  by (simp add: scrape_route_catalog initial_server_def mergedProjects_append absent_titles_def
        repeating_batch_def entry_title)

text \<open>For every server state and batch, a second request with the same batch leaves the
  catalog as the first one made it, and reports the size of the batch.\<close>

lemma scrape_route_twice:
  "projectsCache (fst (scrape_route (fst (scrape_route sv n t1 (Inr batch))) n t2 (Inr batch)))
     = projectsCache (fst (scrape_route sv n t1 (Inr batch)))
   \<and> projectsAdded (snd (scrape_route (fst (scrape_route sv n t1 (Inr batch))) n t2 (Inr batch)))
       = length batch"
  by (simp add: scrape_route_catalog mergedProjects_idem) (simp add: scrape_route_Inr)

text \<open>
  Claim C4. Running the merge again with the same batch on its own result should change
  nothing: the catalog stays and the second count of additions is 0. The catalog does
  stay, but the count reported is again the size of the batch: merging
  \<open>overlapping_batch\<close> a second time appends nothing and reports 2.
\<close>

theorem second_merge_reports_batch_size:
  "projectsCache
     (fst (scrape_route
             (fst (scrape_route stocked_server ''mandy'' ''2026-11-03T09:00:00.000Z''
                     (Inr overlapping_batch)))
             ''mandy'' ''2026-11-03T10:00:00.000Z'' (Inr overlapping_batch)))
     = projectsCache (fst (scrape_route stocked_server ''mandy''
                             ''2026-11-03T09:00:00.000Z'' (Inr overlapping_batch)))
   \<and> projectsAdded
       (snd (scrape_route
               (fst (scrape_route stocked_server ''mandy'' ''2026-11-03T09:00:00.000Z''
                       (Inr overlapping_batch)))
               ''mandy'' ''2026-11-03T10:00:00.000Z'' (Inr overlapping_batch)))
       = 2"
  using scrape_route_twice
          [of stocked_server "''mandy''" "''2026-11-03T09:00:00.000Z''" overlapping_batch
              "''2026-11-03T10:00:00.000Z''"]
  by (simp add: overlapping_batch_def)

text \<open>
  Claim C6. When the adapter succeeds, the status of the source becomes \<open>active\<close> and its
  \<open>projectCount\<close> is the number of projects the adapter returned in this cycle, whatever
  the size of the catalog and however many of them the merge kept.
\<close>

theorem scrape_route_success_status:
  "sourcesCache (fst (scrape_route sv sourceName now (Inr newProjects))) sourceName
     = Some \<lparr> lastScrape = Some (Some now), projectCount = Some (length newProjects),
              status = Some ''active'' \<rparr>"
  by (rule scrape_route_Inr_status)

lemma stocked_merge_length:
  "length (mergedProjects (projectsCache stocked_server) overlapping_batch) = 4
   \<and> length (absent_titles (projectsCache stocked_server) overlapping_batch) = 1"
  by (simp add: mergedProjects_append absent_titles_def stocked_server_def
        overlapping_batch_def entry_title)

theorem scrape_route_success_status_witness:
  "sourcesCache (fst (scrape_route stocked_server ''mandy'' ''2026-11-03T10:00:00.000Z''
                        (Inr overlapping_batch))) ''mandy''
     = Some \<lparr> lastScrape = Some (Some ''2026-11-03T10:00:00.000Z''), projectCount = Some 2,
              status = Some ''active'' \<rparr>
   \<and> length (projectsCache (fst (scrape_route stocked_server ''mandy''
                                   ''2026-11-03T10:00:00.000Z'' (Inr overlapping_batch)))) = 4
   \<and> length (absent_titles (projectsCache stocked_server) overlapping_batch) = 1"
  using scrape_route_success_status
          [of stocked_server "''mandy''" "''2026-11-03T10:00:00.000Z''" overlapping_batch]
        stocked_merge_length
  by (simp add: scrape_route_catalog overlapping_batch_def)

text \<open>
  Claim C7. When the adapter throws, the status of the source ends as \<open>error\<close>, its
  \<open>projectCount\<close> is the one from before the cycle and \<open>lastScrape\<close> the time set at the
  start of the scrape; the failure changes nothing else: the entries of the other sources
  and the catalog are as before, and the answer is a 500 with the message of the error.
\<close>

theorem scrape_route_failure_status:
  "scrape_route sv sourceName now (Inl e)
     = (sv\<lparr> sourcesCache := (sourcesCache sv)
              (sourceName \<mapsto>
                 \<lparr> lastScrape = Some (Some now),
                   projectCount = (case sourcesCache sv sourceName of
                                     None \<Rightarrow> None | Some a \<Rightarrow> projectCount a),
                   status = Some ''error'' \<rparr>) \<rparr>,
        Status500 (message e))"
  by (rule scrape_route_Inl)

theorem scrape_route_failure_status_witness:
  "sourcesCache
     (fst (scrape_route scraped_once ''backstage'' ''2026-11-03T10:00:00.000Z''
             (Inl (AdapterError ''Request failed with status code 403'')))) ''backstage''
     = Some \<lparr> lastScrape = Some (Some ''2026-11-03T10:00:00.000Z''), projectCount = Some 3,
              status = Some ''error'' \<rparr>
   \<and> snd (scrape_route scraped_once ''backstage'' ''2026-11-03T10:00:00.000Z''
            (Inl (AdapterError ''Request failed with status code 403'')))
       = Status500 ''Request failed with status code 403''"
proof -
  from scraped_once_catalog
  obtain ps where p: "scrape sample_clock sample_fresh sample_clock = Inr ps \<and> length ps = 3
        \<and> projectsCache scraped_once = ps" ..
  then have ps: "scrape sample_clock sample_fresh sample_clock = Inr ps"
    and l: "length ps = 3"
    by simp_all
  have "sourcesCache scraped_once ''backstage''
          = Some \<lparr> lastScrape = Some (Some ''2026-11-03T09:00:00.000Z''),
                   projectCount = Some 3, status = Some ''active'' \<rparr>"
    using scrape_route_Inr_status
            [of initial_server "''backstage''" "''2026-11-03T09:00:00.000Z''" ps]
    by (simp add: scraped_once_def ps l)
  then show ?thesis
    using scrape_route_failure_status
            [of scraped_once "''backstage''" "''2026-11-03T10:00:00.000Z''"
                "AdapterError ''Request failed with status code 403''"]
    by simp
qed

section \<open>A listing without description\<close>

text \<open>
  Claim C3, as the source has it. When classifying one listing of a batch fails because
  its description is missing, the \<open>TypeError\<close> leaves the loop: \<open>scrape\<close> returns no
  project of the batch, neither the failing one as Low and tier4 nor the remaining ones,
  and the scrape route, given that outcome, ends the cycle with status \<open>error\<close>, the
  catalog as it was and a 500 answer.
\<close>

theorem missing_description_aborts_cycle:
  assumes "list_ex (\<lambda>it. item.description it = None) items"
  shows "process_items fresh clock i items acc
           = Inl (TypeError ''Cannot read properties of undefined (reading 'toLowerCase')'')
         \<and> scrape_route sv sourceName now (process_items fresh clock i items acc)
           = (sv\<lparr> sourcesCache := (sourcesCache sv)
                    (sourceName \<mapsto>
                       \<lparr> lastScrape = Some (Some now),
                         projectCount = (case sourcesCache sv sourceName of
                                           None \<Rightarrow> None | Some a \<Rightarrow> projectCount a),
                         status = Some ''error'' \<rparr>) \<rparr>,
              Status500 ''Cannot read properties of undefined (reading 'toLowerCase')'')"
  by (simp add: process_items_throws [OF assms] scrape_route_Inl)

theorem missing_description_aborts_cycle_witness:
  "list_ex (\<lambda>it. item.description it = None) incomplete_listings
   \<and> process_items sample_fresh sample_clock 0 incomplete_listings []
       = Inl (TypeError ''Cannot read properties of undefined (reading 'toLowerCase')'')
   \<and> projectsCache (fst (scrape_route stocked_server ''backstage'' ''2026-11-03T10:00:00.000Z''
                           (process_items sample_fresh sample_clock 0 incomplete_listings [])))
       = projectsCache stocked_server"
proof -
  have h: "list_ex (\<lambda>it. item.description it = None) incomplete_listings"
    by (simp add: incomplete_listings_def listing_def)
  note t = missing_description_aborts_cycle
             [OF h, of sample_fresh sample_clock 0 "[]" stocked_server "''backstage''"
                "''2026-11-03T10:00:00.000Z''"]
  from t have a: "process_items sample_fresh sample_clock 0 incomplete_listings []
       = Inl (TypeError ''Cannot read properties of undefined (reading 'toLowerCase')'')"
    by (rule conjunct1)
  from t have b: "scrape_route stocked_server ''backstage'' ''2026-11-03T10:00:00.000Z''
                      (process_items sample_fresh sample_clock 0 incomplete_listings [])
       = (stocked_server\<lparr> sourcesCache := (sourcesCache stocked_server)
              (''backstage'' \<mapsto>
                 \<lparr> lastScrape = Some (Some ''2026-11-03T10:00:00.000Z''),
                   projectCount = (case sourcesCache stocked_server ''backstage'' of
                                     None \<Rightarrow> None | Some a \<Rightarrow> projectCount a),
                   status = Some ''error'' \<rparr>) \<rparr>,
          Status500 ''Cannot read properties of undefined (reading 'toLowerCase')'')"
    by (rule conjunct2)
  have "fst (scrape_route stocked_server ''backstage'' ''2026-11-03T10:00:00.000Z''
                      (process_items sample_fresh sample_clock 0 incomplete_listings []))
       = stocked_server\<lparr> sourcesCache := (sourcesCache stocked_server)
              (''backstage'' \<mapsto>
                 \<lparr> lastScrape = Some (Some ''2026-11-03T10:00:00.000Z''),
                   projectCount = (case sourcesCache stocked_server ''backstage'' of
                                     None \<Rightarrow> None | Some a \<Rightarrow> projectCount a),
                   status = Some ''error'' \<rparr>) \<rparr>"
    by (simp add: b)
  then have c: "projectsCache
       (fst (scrape_route stocked_server ''backstage'' ''2026-11-03T10:00:00.000Z''
               (process_items sample_fresh sample_clock 0 incomplete_listings [])))
       = projectsCache stocked_server"
    by simp
  from h a c show ?thesis by (intro conjI)
qed

text \<open>The claim as it was stated fails on a batch of two listings of which the first has
  no description: nothing is returned, the second listing is not processed, and the cycle
  ends in a 500 answer with an empty catalog.\<close>

theorem missing_description_counterexample:
  "isl (process_items sample_fresh sample_clock 0 incomplete_listings [])
   \<and> projectsCache (fst (scrape_route initial_server ''backstage'' ''2026-11-03T10:00:00.000Z''
                           (process_items sample_fresh sample_clock 0 incomplete_listings [])))
       = []
   \<and> snd (scrape_route initial_server ''backstage'' ''2026-11-03T10:00:00.000Z''
            (process_items sample_fresh sample_clock 0 incomplete_listings []))
       = Status500 ''Cannot read properties of undefined (reading 'toLowerCase')''"
  by (simp add: incomplete_listings_def listing_def classifyVFXNeeds_def scrape_route_Inl
        initial_server_def)

end
